theory Spec2Isabelle
  imports Complex_Main
begin

section \<open>Data model\<close>

text \<open>
  The pipeline of \<^verbatim>\<open>app/services/clustering.py\<close> works on a pandas data frame and
  delegates all numeric work to library objects (\<^verbatim>\<open>pandas.read_csv\<close>,
  \<^verbatim>\<open>LabelEncoder\<close>, \<^verbatim>\<open>StandardScaler\<close>, \<^verbatim>\<open>KMeans\<close>).  The embedding keeps the
  code of the repository (column selection, the two schema checks, the order of the
  stages, the grouping loop, the returned dictionary, the export) as HOL functions and
  takes the library calls as parameters, collected in the record \<open>libs\<close>; of
  k-means only the row-count precondition is written out.
  The type variable \<open>'f\<close> stands for the values of a \<^verbatim>\<open>float64\<close>; no arithmetic on
  it happens in the repository's own code.
\<close>

text \<open>Python exceptions: the class that is raised and its message.\<close>

datatype error =
    ValueError string
  | KeyError string
  | TypeError string
  | OtherError string string

text \<open>Python objects that occur as cells, in the result dictionary and in the JSON payload.\<close>

datatype 'f pyobj =
    PyNone
  | PyInt int
  | PyFloat 'f
  | PyBool bool
  | PyStr string
  | PyList "'f pyobj list"
  | PyDict "(string \<times> 'f pyobj) list"

text \<open>A column of a data frame with its dtype.\<close>

datatype 'f series =
    IntCol "int list"
  | FloatCol "'f list"
  | BoolCol "bool list"
  | ObjectCol "'f pyobj list"

text \<open>A data frame: its columns in order, each with its name.\<close>

type_synonym 'f dataframe = "(string \<times> 'f series) list"

type_synonym bytes = "char list"

record 'f libs =
  read_csv :: "bytes \<Rightarrow> error + 'f dataframe"
  LabelEncoder_fit_transform :: "'f series \<Rightarrow> error + int list"
  StandardScaler_fit_transform :: "'f dataframe \<Rightarrow> error + 'f list list"
  KMeans_labels :: "int \<Rightarrow> nat option \<Rightarrow> nat \<Rightarrow> 'f dataframe \<Rightarrow> error + int list"

text \<open>
  \<open>KMeans_labels L k random_state n_init X\<close> is what
  \<^verbatim>\<open>KMeans(n_clusters=k, random_state=random_state, n_init=n_init).fit_predict(X)\<close>
  does once it has accepted its input: the clustering itself.  \<open>None\<close> is the library's
  default for \<^verbatim>\<open>random_state\<close> (its unseeded generator) and \<open>Some s\<close> an integer seed;
  \<open>StandardScaler_fit_transform L X\<close> returns the array row by row.
\<close>

subsection \<open>Series and frames\<close>

fun tolist :: "'f series \<Rightarrow> 'f pyobj list" where
  "tolist (IntCol xs) = map PyInt xs"
| "tolist (FloatCol xs) = map PyFloat xs"
| "tolist (BoolCol xs) = map PyBool xs"
| "tolist (ObjectCol xs) = xs"

definition series_len :: "'f series \<Rightarrow> nat" where
  "series_len s = length (tolist s)"

text \<open>\<^verbatim>\<open>np.number\<close> covers the integer and floating dtypes, not \<^verbatim>\<open>bool\<close> or \<^verbatim>\<open>object\<close>.\<close>

fun is_number :: "'f series \<Rightarrow> bool" where
  "is_number (IntCol xs) = True"
| "is_number (FloatCol xs) = True"
| "is_number (BoolCol xs) = False"
| "is_number (ObjectCol xs) = False"

definition columns :: "'f dataframe \<Rightarrow> string list" where
  "columns df = map fst df"

text \<open>The length of the index of the frame.\<close>

fun nrows :: "'f dataframe \<Rightarrow> nat" where
  "nrows [] = 0"
| "nrows ((c, s) # df) = series_len s"

text \<open>What \<^verbatim>\<open>read_csv\<close> builds: distinct column names, all columns as long as the index.\<close>

definition wf_frame :: "'f dataframe \<Rightarrow> bool" where
  "wf_frame df \<longleftrightarrow> distinct (columns df) \<and> list_all (\<lambda>(c, s). series_len s = nrows df) df"

definition select_dtypes_number :: "'f dataframe \<Rightarrow> 'f dataframe" where
  "select_dtypes_number df = filter (\<lambda>(c, s). is_number s) df"

text \<open>\<^verbatim>\<open>df[cols]\<close> for a list of column names.\<close>

definition getitems :: "'f dataframe \<Rightarrow> string list \<Rightarrow> 'f dataframe" where
  "getitems df cols = concat (map (\<lambda>col. filter (\<lambda>(c, s). c = col) df) cols)"

text \<open>\<^verbatim>\<open>df[col] = values\<close>: an existing column is replaced in place, a new one is appended.\<close>

definition assign :: "'f dataframe \<Rightarrow> string \<Rightarrow> 'f series \<Rightarrow> 'f dataframe" where
  "assign df col s =
     (if col \<in> set (columns df) then map (\<lambda>(c, x). if c = col then (c, s) else (c, x)) df
      else df @ [(col, s)])"

definition length_mismatch :: error where
  "length_mismatch = ValueError ''Length of values does not match length of index''"

definition setitem :: "'f dataframe \<Rightarrow> string \<Rightarrow> 'f series \<Rightarrow> error + 'f dataframe" where
  "setitem df col s =
     (if series_len s \<noteq> nrows df then Inl length_mismatch else Inr (assign df col s))"

text \<open>\<^verbatim>\<open>df[cols] = array\<close> for a two-dimensional array given row by row.\<close>

fun assign_columns :: "'f dataframe \<Rightarrow> (string \<times> nat) list \<Rightarrow> 'f list list \<Rightarrow> 'f dataframe" where
  "assign_columns df [] arr = df"
| "assign_columns df ((col, j) # cjs) arr =
     assign_columns (assign df col (FloatCol (map (\<lambda>row. row ! j) arr))) cjs arr"

definition shape_mismatch :: error where
  "shape_mismatch = ValueError ''Must have equal len keys and value when setting with an iterable''"

definition setitems :: "'f dataframe \<Rightarrow> string list \<Rightarrow> 'f list list \<Rightarrow> error + 'f dataframe" where
  "setitems df cols arr =
     (if length arr \<noteq> nrows df then Inl length_mismatch
      else if \<not> list_all (\<lambda>row. length row = length cols) arr then Inl shape_mismatch
      else Inr (assign_columns df (zip cols [0..<length cols]) arr))"

text \<open>\<^verbatim>\<open>df.to_dict(orient="records")\<close>: one dictionary per row, keyed by column name.\<close>

definition to_dict_records :: "'f dataframe \<Rightarrow> 'f pyobj list" where
  "to_dict_records df =
     map (\<lambda>i. PyDict (map (\<lambda>(c, s). (c, tolist s ! i)) df)) [0..<nrows df]"

subsection \<open>Decimal rendering of integers and dictionaries\<close>

definition digit_char :: "nat \<Rightarrow> char" where
  "digit_char d = ''0123456789'' ! d"

fun str_nat :: "nat \<Rightarrow> string" where
  "str_nat n = (if n < 10 then [digit_char n] else str_nat (n div 10) @ [digit_char (n mod 10)])"

declare str_nat.simps [simp del]

definition str_int :: "int \<Rightarrow> string" where
  "str_int i = (if i < 0 then CHR ''-'' # str_nat (nat (- i)) else str_nat (nat i))"

text \<open>\<^verbatim>\<open>d[k] = v\<close> on an insertion-ordered dictionary.\<close>

definition dict_set :: "(string \<times> 'v) list \<Rightarrow> string \<Rightarrow> 'v \<Rightarrow> (string \<times> 'v) list" where
  "dict_set d k v =
     (if k \<in> fst ` set d then map (\<lambda>(k', v'). if k' = k then (k', v) else (k', v')) d
      else d @ [(k, v)])"

subsection \<open>The cluster engine\<close>

text \<open>
  The error with which scikit-learn's \<^verbatim>\<open>KMeans\<close> rejects a matrix of \<open>n\<close> rows when
  \<open>k\<close> clusters are requested.
\<close>

definition n_samples_error :: "nat \<Rightarrow> int \<Rightarrow> error" where
  "n_samples_error n k =
     ValueError (''n_samples='' @ str_nat n @ '' should be >= n_clusters='' @ str_int k @ ''.'')"

text \<open>
  Modelled from the spec: the row-count precondition of the cluster engine (section 4.4:
  it fails if \<open>k\<close> exceeds the number of rows, more clusters than data points cannot be
  formed).  The pipeline has no such check of its own; the check is made inside
  scikit-learn's \<^verbatim>\<open>KMeans.fit_predict\<close>, which is not part of the repository.  For a
  matrix with at least \<open>k\<close> rows the result is that of the clustering itself, the
  parameter \<open>KMeans_labels\<close>.
\<close>

definition KMeans_fit_predict ::
  "'f libs \<Rightarrow> int \<Rightarrow> nat option \<Rightarrow> nat \<Rightarrow> 'f dataframe \<Rightarrow> error + int list" where
  "KMeans_fit_predict L k random_state n_init X =
     (if int (nrows X) < k then Inl (n_samples_error (nrows X) k)
      else KMeans_labels L k random_state n_init X)"

section \<open>The pipeline\<close>

definition candidate_columns :: "string list" where
  "candidate_columns =
     [''gaming_platform_top1'', ''social_platform_top1'', ''ott_top1'', ''content_creation_freq'']"

text \<open>The loop of \<^verbatim>\<open>_encode_categorical_columns\<close> over the columns to encode.\<close>

fun encode_loop :: "'f libs \<Rightarrow> string list \<Rightarrow> 'f dataframe \<Rightarrow> error + 'f dataframe" where
  "encode_loop L [] df = Inr df"
| "encode_loop L (col # cols) df =
     (case map_of df col of
        None \<Rightarrow> Inl (KeyError col)
      | Some s \<Rightarrow>
          (case LabelEncoder_fit_transform L s of
             Inl e \<Rightarrow> Inl e
           | Inr codes \<Rightarrow>
               (case setitem df col (IntCol codes) of
                  Inl e \<Rightarrow> Inl e
                | Inr df' \<Rightarrow> encode_loop L cols df')))"

text \<open>
  \<^verbatim>\<open>_encode_categorical_columns\<close>.  The source also returns the fitted encoders; its
  only caller drops them, and so does the model.
\<close>

definition encode_categorical_columns :: "'f libs \<Rightarrow> 'f dataframe \<Rightarrow> error + 'f dataframe" where
  "encode_categorical_columns L df =
     (let cat_cols = filter (\<lambda>col. col \<in> set (columns df)) candidate_columns
      in if cat_cols = [] then Inr df else encode_loop L cat_cols df)"

text \<open>
  \<^verbatim>\<open>_scale_numeric_columns\<close>, returning the frame and the names of the numeric columns
  (the fitted scaler, which the caller drops, is left out).
\<close>

definition scale_numeric_columns ::
  "'f libs \<Rightarrow> 'f dataframe \<Rightarrow> error + ('f dataframe \<times> string list)" where
  "scale_numeric_columns L df =
     (let numeric_cols = columns (select_dtypes_number df)
      in if numeric_cols = [] then Inr (df, numeric_cols)
         else (case StandardScaler_fit_transform L (getitems df numeric_cols) of
                 Inl e \<Rightarrow> Inl e
               | Inr arr \<Rightarrow>
                   (case setitems df numeric_cols arr of
                      Inl e \<Rightarrow> Inl e
                    | Inr df' \<Rightarrow> Inr (df', numeric_cols))))"

definition cluster_label :: "int \<Rightarrow> string" where
  "cluster_label cluster_id = ''Cluster '' @ str_int cluster_id"

text \<open>\<^verbatim>\<open>df["Cluster"].unique()\<close>, sorted.\<close>

definition sorted_unique_clusters :: "'f dataframe \<Rightarrow> int list" where
  "sorted_unique_clusters df =
     (case map_of df ''Cluster'' of Some (IntCol ls) \<Rightarrow> sort (remdups ls) | _ \<Rightarrow> [])"

text \<open>\<^verbatim>\<open>df[df["Cluster"] == cluster_id]["name"].tolist()\<close>.\<close>

definition persons_in_cluster :: "'f dataframe \<Rightarrow> int \<Rightarrow> 'f pyobj list" where
  "persons_in_cluster df cluster_id =
     (case (map_of df ''Cluster'', map_of df ''name'') of
        (Some cl, Some nm) \<Rightarrow>
          map snd (filter (\<lambda>(l, v). l = PyInt cluster_id) (zip (tolist cl) (tolist nm)))
      | _ \<Rightarrow> [])"

fun summary_loop ::
  "'f dataframe \<Rightarrow> int list \<Rightarrow> (string \<times> 'f pyobj) list \<Rightarrow> (string \<times> 'f pyobj) list" where
  "summary_loop df [] clusters_summary = clusters_summary"
| "summary_loop df (cluster_id # ids) clusters_summary =
     summary_loop df ids
       (dict_set clusters_summary (cluster_label cluster_id)
          (PyList (persons_in_cluster df cluster_id)))"

definition missing_name :: error where
  "missing_name = ValueError ''Dataset must contain a 'name' column for person identification.''"

definition no_numeric :: error where
  "no_numeric = ValueError ''Dataset must contain at least one numeric column for clustering.''"

definition run_clustering_pipeline ::
  "'f libs \<Rightarrow> bytes \<Rightarrow> int \<Rightarrow> error + (string \<times> 'f pyobj) list" where
  "run_clustering_pipeline L file_bytes k_opt =
     (case read_csv L file_bytes of
        Inl e \<Rightarrow> Inl e
      | Inr df \<Rightarrow>
          if ''name'' \<notin> set (columns df) then Inl missing_name
          else (case encode_categorical_columns L df of
             Inl e \<Rightarrow> Inl e
           | Inr df1 \<Rightarrow>
               (case scale_numeric_columns L df1 of
                  Inl e \<Rightarrow> Inl e
                | Inr (df2, numeric_cols) \<Rightarrow>
                    if numeric_cols = [] then Inl no_numeric
                    else (case KMeans_fit_predict L k_opt (Some 42) 10 (select_dtypes_number df2) of
                       Inl e \<Rightarrow> Inl e
                     | Inr labels \<Rightarrow>
                         (case setitem df2 ''Cluster'' (IntCol labels) of
                            Inl e \<Rightarrow> Inl e
                          | Inr df3 \<Rightarrow>
                              Inr [(''number_of_clusters'', PyInt k_opt),
                                   (''clusters'',
                                      PyDict (summary_loop df3 (sorted_unique_clusters df3) [])),
                                   (''raw_clusters'', PyList (to_dict_records df3))])))))"

section \<open>The export\<close>

text \<open>
  \<^verbatim>\<open>json.dumps(obj, indent=ind)\<close> with the encoder's defaults: item separator
  \<^verbatim>\<open>","\<close>, key separator \<^verbatim>\<open>": "\<close>, every item on a line of its own, indented by
  \<open>ind\<close> spaces per nesting level, ASCII-only string literals (a \<open>char\<close> stands for
  a code point below 256).  The text of a float is the parameter \<open>float_repr\<close>.
\<close>

definition hex_digit :: "nat \<Rightarrow> char" where
  "hex_digit d = ''0123456789abcdef'' ! d"

definition escape_char :: "char \<Rightarrow> string" where
  "escape_char c =
     (if c = CHR 0x5C then [CHR 0x5C, CHR 0x5C]
      else if c = CHR 0x22 then [CHR 0x5C, CHR 0x22]
      else if c = CHR 0x08 then [CHR 0x5C, CHR ''b'']
      else if c = CHR 0x0C then [CHR 0x5C, CHR ''f'']
      else if c = CHR 0x0A then [CHR 0x5C, CHR ''n'']
      else if c = CHR 0x0D then [CHR 0x5C, CHR ''r'']
      else if c = CHR 0x09 then [CHR 0x5C, CHR ''t'']
      else if 32 \<le> (of_char c :: nat) \<and> (of_char c :: nat) \<le> 126 then [c]
      else [CHR 0x5C, CHR ''u'', CHR ''0'', CHR ''0'',
            hex_digit ((of_char c :: nat) div 16), hex_digit ((of_char c :: nat) mod 16)])"

definition encode_basestring_ascii :: "string \<Rightarrow> string" where
  "encode_basestring_ascii s = [CHR 0x22] @ concat (map escape_char s) @ [CHR 0x22]"

definition newline_indent :: "nat \<Rightarrow> nat \<Rightarrow> string" where
  "newline_indent ind level = CHR 0x0A # replicate (ind * level) CHR '' ''"

fun join :: "string \<Rightarrow> string list \<Rightarrow> string" where
  "join sep [] = []"
| "join sep [x] = x"
| "join sep (x # y # ys) = x @ sep @ join sep (y # ys)"

fun json_encode :: "('f \<Rightarrow> string) \<Rightarrow> nat \<Rightarrow> nat \<Rightarrow> 'f pyobj \<Rightarrow> string" where
  "json_encode float_repr ind level PyNone = ''null''"
| "json_encode float_repr ind level (PyInt i) = str_int i"
| "json_encode float_repr ind level (PyFloat x) = float_repr x"
| "json_encode float_repr ind level (PyBool b) = (if b then ''true'' else ''false'')"
| "json_encode float_repr ind level (PyStr s) = encode_basestring_ascii s"
| "json_encode float_repr ind level (PyList xs) =
     (if xs = [] then ''[]''
      else ''['' @ newline_indent ind (level + 1)
           @ join ('','' @ newline_indent ind (level + 1))
               (map (json_encode float_repr ind (level + 1)) xs)
           @ newline_indent ind level @ '']'')"
| "json_encode float_repr ind level (PyDict kvs) =
     (if kvs = [] then ''{}''
      else ''{'' @ newline_indent ind (level + 1)
           @ join ('','' @ newline_indent ind (level + 1))
               (map (\<lambda>(k, v). encode_basestring_ascii k @ '': ''
                        @ json_encode float_repr ind (level + 1) v) kvs)
           @ newline_indent ind level @ ''}'')"

definition json_dumps :: "('f \<Rightarrow> string) \<Rightarrow> nat \<Rightarrow> 'f pyobj \<Rightarrow> string" where
  "json_dumps float_repr ind obj = json_encode float_repr ind 0 obj"

text \<open>\<^verbatim>\<open>d[k]\<close> on a dictionary.\<close>

definition dict_get :: "(string \<times> 'v) list \<Rightarrow> string \<Rightarrow> error + 'v" where
  "dict_get d k = (case map_of d k of None \<Rightarrow> Inl (KeyError k) | Some v \<Rightarrow> Inr v)"

definition serialize_clusters_to_json ::
  "('f \<Rightarrow> string) \<Rightarrow> (string \<times> 'f pyobj) list \<Rightarrow> error + string" where
  "serialize_clusters_to_json float_repr clustering_result =
     (case dict_get clustering_result ''number_of_clusters'' of
        Inl e \<Rightarrow> Inl e
      | Inr n \<Rightarrow>
          (case dict_get clustering_result ''clusters'' of
             Inl e \<Rightarrow> Inl e
           | Inr c \<Rightarrow>
               Inr (json_dumps float_repr 2
                      (PyDict [(''number_of_clusters'', n), (''clusters'', c)]))))"

subsection \<open>Reading the export back\<close>

text \<open>
  \<^verbatim>\<open>json.loads\<close>, to say what an export parses to: the scanner of CPython's
  \<^verbatim>\<open>json\<close> module on the values of this model.  White space is skipped between tokens.
  A string literal ends at the first unescaped quote and may hold the escapes of JSON (a
  \<^verbatim>\<open>\u\<close> escape has to name a code point below 256, the others lie outside the strings
  of this model); a raw control character is rejected.  A number token is the longest run
  of characters that occur in numbers and in \<^verbatim>\<open>NaN\<close> and \<^verbatim>\<open>Infinity\<close>; it is an integer
  when it is an integer literal of JSON, and is read by the parameter \<open>float_of\<close>
  (Python's \<^verbatim>\<open>float\<close>) otherwise.  An object keeps, for a repeated key, the place of its
  first and the value of its last occurrence, as a Python dictionary does.  Text after the
  value, other than white space, is rejected.  The recursion is bounded by a counter, which
  \<open>json_loads\<close> sets above the length of the text.
\<close>

definition is_ws :: "char \<Rightarrow> bool" where
  "is_ws c \<longleftrightarrow> c = CHR '' '' \<or> c = CHR 0x09 \<or> c = CHR 0x0A \<or> c = CHR 0x0D"

definition skip_ws :: "string \<Rightarrow> string" where
  "skip_ws s = dropWhile is_ws s"

definition hex_value :: "char \<Rightarrow> nat option" where
  "hex_value c =
     (let n = (of_char c :: nat)
      in if 48 \<le> n \<and> n \<le> 57 then Some (n - 48)
         else if 97 \<le> n \<and> n \<le> 102 then Some (n - 87)
         else if 65 \<le> n \<and> n \<le> 70 then Some (n - 55)
         else None)"

definition unescape :: "char \<Rightarrow> char option" where
  "unescape e =
     (if e = CHR 0x22 then Some (CHR 0x22)
      else if e = CHR 0x5C then Some (CHR 0x5C)
      else if e = CHR ''/'' then Some (CHR ''/'')
      else if e = CHR ''b'' then Some (CHR 0x08)
      else if e = CHR ''f'' then Some (CHR 0x0C)
      else if e = CHR ''n'' then Some (CHR 0x0A)
      else if e = CHR ''r'' then Some (CHR 0x0D)
      else if e = CHR ''t'' then Some (CHR 0x09)
      else None)"

fun scanstring :: "string \<Rightarrow> (string \<times> string) option" where
  "scanstring [] = None"
| "scanstring (c # cs) =
     (if c = CHR 0x22 then Some ([], cs)
      else if c = CHR 0x5C then
        (case cs of
           [] \<Rightarrow> None
         | e # es \<Rightarrow>
             if e = CHR ''u'' then
               (case es of
                  h1 # h2 # h3 # h4 # rest \<Rightarrow>
                    (case (hex_value h1, hex_value h2, hex_value h3, hex_value h4) of
                       (Some a, Some b, Some c', Some d) \<Rightarrow>
                         if ((a * 16 + b) * 16 + c') * 16 + d < 256 then
                           (case scanstring rest of
                              None \<Rightarrow> None
                            | Some (str, r) \<Rightarrow>
                                Some (char_of (((a * 16 + b) * 16 + c') * 16 + d) # str, r))
                         else None
                     | _ \<Rightarrow> None)
                | _ \<Rightarrow> None)
             else
               (case unescape e of
                  None \<Rightarrow> None
                | Some c' \<Rightarrow>
                    (case scanstring es of
                       None \<Rightarrow> None
                     | Some (str, r) \<Rightarrow> Some (c' # str, r))))
      else if (of_char c :: nat) < 32 then None
      else (case scanstring cs of
              None \<Rightarrow> None
            | Some (str, r) \<Rightarrow> Some (c # str, r)))"

definition is_digit :: "char \<Rightarrow> bool" where
  "is_digit c \<longleftrightarrow> 48 \<le> (of_char c :: nat) \<and> (of_char c :: nat) \<le> 57"

definition number_char :: "char \<Rightarrow> bool" where
  "number_char c \<longleftrightarrow> is_digit c \<or> c \<in> set ''+-.eEINafinty''"

definition nat_of_digits :: "string \<Rightarrow> nat" where
  "nat_of_digits s = foldl (\<lambda>a c. 10 * a + ((of_char c :: nat) - 48)) 0 s"

definition int_literal :: "string \<Rightarrow> bool" where
  "int_literal t \<longleftrightarrow>
     (let u = (case t of [] \<Rightarrow> [] | c # cs \<Rightarrow> if c = CHR ''-'' then cs else t)
      in u \<noteq> [] \<and> list_all is_digit u \<and> (length u = 1 \<or> hd u \<noteq> CHR ''0''))"

definition int_of_literal :: "string \<Rightarrow> int" where
  "int_of_literal t =
     (case t of
        [] \<Rightarrow> 0
      | c # cs \<Rightarrow> if c = CHR ''-'' then - int (nat_of_digits cs) else int (nat_of_digits t))"

definition scan_number :: "(string \<Rightarrow> 'f option) \<Rightarrow> string \<Rightarrow> ('f pyobj \<times> string) option" where
  "scan_number float_of s =
     (let t = takeWhile number_char s; r = dropWhile number_char s
      in if int_literal t then Some (PyInt (int_of_literal t), r)
         else (case float_of t of None \<Rightarrow> None | Some x \<Rightarrow> Some (PyFloat x, r)))"

definition scan_constant :: "string \<Rightarrow> ('f pyobj \<times> string) option" where
  "scan_constant s =
     (if take 4 s = ''true'' then Some (PyBool True, drop 4 s)
      else if take 5 s = ''false'' then Some (PyBool False, drop 5 s)
      else if take 4 s = ''null'' then Some (PyNone, drop 4 s)
      else None)"

definition dict_of_pairs :: "(string \<times> 'v) list \<Rightarrow> (string \<times> 'v) list" where
  "dict_of_pairs kvs = foldl (\<lambda>d (k, v). dict_set d k v) [] kvs"

fun parse_value :: "(string \<Rightarrow> 'f option) \<Rightarrow> nat \<Rightarrow> string \<Rightarrow> ('f pyobj \<times> string) option"
  and parse_elements ::
    "(string \<Rightarrow> 'f option) \<Rightarrow> nat \<Rightarrow> string \<Rightarrow> ('f pyobj list \<times> string) option"
  and parse_members ::
    "(string \<Rightarrow> 'f option) \<Rightarrow> nat \<Rightarrow> string \<Rightarrow> ((string \<times> 'f pyobj) list \<times> string) option"
where
  "parse_value float_of 0 s = None"
| "parse_value float_of (Suc n) s =
     (case skip_ws s of
        [] \<Rightarrow> None
      | c # cs \<Rightarrow>
          if c = CHR 0x22 then
            (case scanstring cs of None \<Rightarrow> None | Some (str, r) \<Rightarrow> Some (PyStr str, r))
          else if c = CHR ''['' then
            (case skip_ws cs of
               [] \<Rightarrow> None
             | d # ds \<Rightarrow>
                 if d = CHR '']'' then Some (PyList [], ds)
                 else (case parse_elements float_of n cs of
                         None \<Rightarrow> None
                       | Some (xs, r) \<Rightarrow> Some (PyList xs, r)))
          else if c = CHR ''{'' then
            (case skip_ws cs of
               [] \<Rightarrow> None
             | d # ds \<Rightarrow>
                 if d = CHR ''}'' then Some (PyDict [], ds)
                 else (case parse_members float_of n cs of
                         None \<Rightarrow> None
                       | Some (kvs, r) \<Rightarrow> Some (PyDict (dict_of_pairs kvs), r)))
          else if c = CHR ''t'' \<or> c = CHR ''f'' \<or> c = CHR ''n'' then scan_constant (c # cs)
          else if c = CHR ''-'' \<or> is_digit c \<or> c = CHR ''N'' \<or> c = CHR ''I''
            then scan_number float_of (c # cs)
          else None)"
| "parse_elements float_of 0 s = None"
| "parse_elements float_of (Suc n) s =
     (case parse_value float_of n s of
        None \<Rightarrow> None
      | Some (x, r) \<Rightarrow>
          (case skip_ws r of
             [] \<Rightarrow> None
           | c # cs \<Rightarrow>
               if c = CHR '','' then
                 (case parse_elements float_of n cs of
                    None \<Rightarrow> None
                  | Some (xs, r') \<Rightarrow> Some (x # xs, r'))
               else if c = CHR '']'' then Some ([x], cs)
               else None))"
| "parse_members float_of 0 s = None"
| "parse_members float_of (Suc n) s =
     (case skip_ws s of
        [] \<Rightarrow> None
      | q # qs \<Rightarrow>
          if q \<noteq> CHR 0x22 then None
          else
            (case scanstring qs of
               None \<Rightarrow> None
             | Some (k, r) \<Rightarrow>
                 (case skip_ws r of
                    [] \<Rightarrow> None
                  | c # cs \<Rightarrow>
                      if c \<noteq> CHR '':'' then None
                      else
                        (case parse_value float_of n cs of
                           None \<Rightarrow> None
                         | Some (v, r') \<Rightarrow>
                             (case skip_ws r' of
                                [] \<Rightarrow> None
                              | d # ds \<Rightarrow>
                                  if d = CHR '','' then
                                    (case parse_members float_of n ds of
                                       None \<Rightarrow> None
                                     | Some (kvs, r'') \<Rightarrow> Some ((k, v) # kvs, r''))
                                  else if d = CHR ''}'' then Some ([(k, v)], ds)
                                  else None)))))"

definition json_loads :: "(string \<Rightarrow> 'f option) \<Rightarrow> string \<Rightarrow> 'f pyobj option" where
  "json_loads float_of s =
     (case parse_value float_of (Suc (length s)) s of
        None \<Rightarrow> None
      | Some (v, r) \<Rightarrow> if skip_ws r = [] then Some v else None)"

text \<open>
  The values whose text parses back to them: dictionaries have pairwise different keys, as
  every Python dictionary has, and the text of every float is a number token, not an
  integer literal, that \<open>float_of\<close> reads back (in Python \<^verbatim>\<open>float(repr(x))\<close> is \<open>x\<close>).
\<close>

definition float_text_ok :: "(string \<Rightarrow> 'f option) \<Rightarrow> ('f \<Rightarrow> string) \<Rightarrow> 'f \<Rightarrow> bool" where
  "float_text_ok float_of float_repr x \<longleftrightarrow>
     (case float_repr x of
        [] \<Rightarrow> False
      | c # cs \<Rightarrow>
          (c = CHR ''-'' \<or> is_digit c \<or> c = CHR ''N'' \<or> c = CHR ''I'') \<and>
          list_all number_char (c # cs) \<and> \<not> int_literal (c # cs) \<and>
          float_of (c # cs) = Some x)"

fun json_ok :: "(string \<Rightarrow> 'f option) \<Rightarrow> ('f \<Rightarrow> string) \<Rightarrow> 'f pyobj \<Rightarrow> bool" where
  "json_ok float_of float_repr (PyFloat x) = float_text_ok float_of float_repr x"
| "json_ok float_of float_repr (PyList xs) = list_all (json_ok float_of float_repr) xs"
| "json_ok float_of float_repr (PyDict kvs) =
     (distinct (map fst kvs) \<and> list_all (\<lambda>(k, v). json_ok float_of float_repr v) kvs)"
| "json_ok float_of float_repr v = True"

text \<open>A number token ends where the text ends or a character follows that no number has.\<close>

definition ends_number :: "string \<Rightarrow> bool" where
  "ends_number rest \<longleftrightarrow> (case rest of [] \<Rightarrow> True | c # cs \<Rightarrow> \<not> number_char c)"

section \<open>Notions used to state the properties\<close>

text \<open>The rows, by position and in increasing order, to which a label list gives label \<open>c\<close>.\<close>

definition rows_with_label :: "int list \<Rightarrow> int \<Rightarrow> nat list" where
  "rows_with_label labels c = filter (\<lambda>i. labels ! i = c) [0..<length labels]"

section \<open>Recorded library answers\<close>

text \<open>
  For worked examples: an environment in which the parser yields the frame \<open>df\<close>, the
  label encoder the codes \<open>codes\<close>, the scaler the array \<open>arr\<close>, and the clustering the
  labels \<open>labels\<close>.
\<close>

definition recorded_libs ::
  "real dataframe \<Rightarrow> int list \<Rightarrow> real list list \<Rightarrow> int list \<Rightarrow> real libs" where
  "recorded_libs df codes arr labels =
     \<lparr> read_csv = (\<lambda>file_bytes. Inr df),
       LabelEncoder_fit_transform = (\<lambda>s. Inr codes),
       StandardScaler_fit_transform = (\<lambda>X. Inr arr),
       KMeans_labels = (\<lambda>k random_state n_init X. Inr labels) \<rparr>"

text \<open>A table without a \<^verbatim>\<open>name\<close> column: \<^verbatim>\<open>age\<close> with the single row 20.\<close>

definition without_name_csv :: bytes where
  "without_name_csv = ''age\<newline>20\<newline>''"

definition frame_without_name :: "real dataframe" where
  "frame_without_name = [(''age'', IntCol [20])]"

definition libs_without_name :: "real libs" where
  "libs_without_name = recorded_libs frame_without_name [] [[0]] [0]"

text \<open>
  A table of four people in two groups, with the answers the libraries give on it: the
  platforms are coded \<^verbatim>\<open>Console\<close> = 0 and \<^verbatim>\<open>PC\<close> = 1, both numeric columns have
  standardized values -1 and 1, and k-means with two clusters separates the two groups
  (which group gets label 0 is the library's choice; here the first row's).
\<close>

definition sample_csv :: bytes where
  "sample_csv = ''name,age,gaming_platform_top1\<newline>Alice,20,PC\<newline>Bob,40,Console\<newline>Carol,20,PC\<newline>Dan,40,Console\<newline>''"

definition sample_frame :: "real dataframe" where
  "sample_frame =
     [(''name'', ObjectCol [PyStr ''Alice'', PyStr ''Bob'', PyStr ''Carol'', PyStr ''Dan'']),
      (''age'', IntCol [20, 40, 20, 40]),
      (''gaming_platform_top1'',
         ObjectCol [PyStr ''PC'', PyStr ''Console'', PyStr ''PC'', PyStr ''Console''])]"

definition sample_libs :: "real libs" where
  "sample_libs =
     recorded_libs sample_frame [1, 0, 1, 0] [[-1, 1], [1, -1], [-1, 1], [1, -1]] [0, 1, 0, 1]"

definition sample_result :: "(string \<times> real pyobj) list" where
  "sample_result =
     [(''number_of_clusters'', PyInt 2),
      (''clusters'', PyDict [(''Cluster 0'', PyList [PyStr ''Alice'', PyStr ''Carol'']),
                             (''Cluster 1'', PyList [PyStr ''Bob'', PyStr ''Dan''])]),
      (''raw_clusters'', PyList
         [PyDict [(''name'', PyStr ''Alice''), (''age'', PyFloat (- 1)),
                  (''gaming_platform_top1'', PyFloat 1), (''Cluster'', PyInt 0)],
          PyDict [(''name'', PyStr ''Bob''), (''age'', PyFloat 1),
                  (''gaming_platform_top1'', PyFloat (- 1)), (''Cluster'', PyInt 1)],
          PyDict [(''name'', PyStr ''Carol''), (''age'', PyFloat (- 1)),
                  (''gaming_platform_top1'', PyFloat 1), (''Cluster'', PyInt 0)],
          PyDict [(''name'', PyStr ''Dan''), (''age'', PyFloat 1),
                  (''gaming_platform_top1'', PyFloat (- 1)), (''Cluster'', PyInt 1)]])]"

text \<open>
  A table whose only feature column is constant, with three clusters requested.  Every
  standardized value is 0, all feature rows coincide, and k-means puts every row into
  cluster 0 (scikit-learn warns that it found fewer distinct clusters than requested).
\<close>

definition constant_csv :: bytes where
  "constant_csv = ''name,age\<newline>Alice,20\<newline>Bob,20\<newline>Carol,20\<newline>''"

definition constant_frame :: "real dataframe" where
  "constant_frame =
     [(''name'', ObjectCol [PyStr ''Alice'', PyStr ''Bob'', PyStr ''Carol'']),
      (''age'', IntCol [20, 20, 20])]"

definition constant_libs :: "real libs" where
  "constant_libs = recorded_libs constant_frame [] [[0], [0], [0]] [0, 0, 0]"

definition constant_result :: "(string \<times> real pyobj) list" where
  "constant_result =
     [(''number_of_clusters'', PyInt 3),
      (''clusters'', PyDict [(''Cluster 0'', PyList [PyStr ''Alice'', PyStr ''Bob'', PyStr ''Carol''])]),
      (''raw_clusters'', PyList
         [PyDict [(''name'', PyStr ''Alice''), (''age'', PyFloat 0), (''Cluster'', PyInt 0)],
          PyDict [(''name'', PyStr ''Bob''), (''age'', PyFloat 0), (''Cluster'', PyInt 0)],
          PyDict [(''name'', PyStr ''Carol''), (''age'', PyFloat 0), (''Cluster'', PyInt 0)]])]"

text \<open>
  A table whose \<^verbatim>\<open>name\<close> column holds numbers and that has no other column, with
  one cluster requested: the two names standardize to -1 and 1, and both rows get label 0.
\<close>

definition ids_csv :: bytes where
  "ids_csv = ''name\<newline>101\<newline>103\<newline>''"

definition ids_frame :: "real dataframe" where
  "ids_frame = [(''name'', IntCol [101, 103])]"

definition ids_libs :: "real libs" where
  "ids_libs = recorded_libs ids_frame [] [[- 1], [1]] [0, 0]"

definition ids_result :: "(string \<times> real pyobj) list" where
  "ids_result =
     [(''number_of_clusters'', PyInt 1),
      (''clusters'', PyDict [(''Cluster 0'', PyList [PyFloat (- 1), PyFloat 1])]),
      (''raw_clusters'', PyList
         [PyDict [(''name'', PyFloat (- 1)), (''Cluster'', PyInt 0)],
          PyDict [(''name'', PyFloat 1), (''Cluster'', PyInt 0)]])]"

text \<open>A table without any numeric column.\<close>

definition text_csv :: bytes where
  "text_csv = ''name,city\<newline>Alice,Paris\<newline>Bob,Rome\<newline>''"

definition text_frame :: "real dataframe" where
  "text_frame =
     [(''name'', ObjectCol [PyStr ''Alice'', PyStr ''Bob'']),
      (''city'', ObjectCol [PyStr ''Paris'', PyStr ''Rome''])]"

definition text_libs :: "real libs" where
  "text_libs = recorded_libs text_frame [] [] []"

text \<open>A table of one row, with three clusters requested.\<close>

definition single_csv :: bytes where
  "single_csv = ''name,age\<newline>Alice,20\<newline>''"

definition single_frame :: "real dataframe" where
  "single_frame = [(''name'', ObjectCol [PyStr ''Alice'']), (''age'', IntCol [20])]"

definition single_libs :: "real libs" where
  "single_libs = recorded_libs single_frame [] [[0]] [0]"

text \<open>
  A second run of the libraries on the four-person table: it answers every seeded call as
  the first one does, and an unseeded k-means call with the two labels exchanged.
\<close>

definition sample_libs_other_run :: "real libs" where
  "sample_libs_other_run =
     sample_libs \<lparr> KMeans_labels := (\<lambda>k random_state n_init X.
        case random_state of
          None \<Rightarrow> Inr [1, 0, 1, 0]
        | Some s \<Rightarrow> KMeans_labels sample_libs k (Some s) n_init X) \<rparr>"

text \<open>
  A table whose only column besides a textual \<^verbatim>\<open>name\<close> is a recognized categorical
  one, with one cluster requested: the platforms are coded \<^verbatim>\<open>Console\<close> = 0 and
  \<^verbatim>\<open>PC\<close> = 1 and standardize to -1 and 1, and both rows get label 0.
\<close>

definition platform_csv :: bytes where
  "platform_csv = ''name,gaming_platform_top1\<newline>Alice,PC\<newline>Bob,Console\<newline>''"

definition platform_frame :: "real dataframe" where
  "platform_frame =
     [(''name'', ObjectCol [PyStr ''Alice'', PyStr ''Bob'']),
      (''gaming_platform_top1'', ObjectCol [PyStr ''PC'', PyStr ''Console''])]"

definition platform_libs :: "real libs" where
  "platform_libs = recorded_libs platform_frame [1, 0] [[1], [- 1]] [0, 0]"

definition platform_result :: "(string \<times> real pyobj) list" where
  "platform_result =
     [(''number_of_clusters'', PyInt 1),
      (''clusters'', PyDict [(''Cluster 0'', PyList [PyStr ''Alice'', PyStr ''Bob''])]),
      (''raw_clusters'', PyList
         [PyDict [(''name'', PyStr ''Alice''), (''gaming_platform_top1'', PyFloat 1),
                  (''Cluster'', PyInt 0)],
          PyDict [(''name'', PyStr ''Bob''), (''gaming_platform_top1'', PyFloat (- 1)),
                  (''Cluster'', PyInt 0)]])]"

text \<open>The texts of the floats 1.0 and -1.0, and Python's \<^verbatim>\<open>float\<close> on these texts.\<close>

definition sample_float_repr :: "real \<Rightarrow> string" where
  "sample_float_repr x = (if x = 1 then ''1.0'' else ''-1.0'')"

definition sample_float_of :: "string \<Rightarrow> real option" where
  "sample_float_of t =
     (if t = ''1.0'' then Some 1 else if t = ''-1.0'' then Some (- 1) else None)"

section \<open>Auxiliary facts\<close>

subsection \<open>Decimal rendering is injective\<close>

lemma digit_char_inj: "d < 10 \<Longrightarrow> e < 10 \<Longrightarrow> digit_char d = digit_char e \<Longrightarrow> d = e"
  unfolding digit_char_def
  by (subst (asm) nth_eq_iff_index_eq) simp_all

lemma digit_char_not_minus: "d < 10 \<Longrightarrow> digit_char d \<noteq> CHR ''-''"
proof -
  assume "d < 10"
  then have "digit_char d \<in> set ''0123456789''"
    unfolding digit_char_def by (intro nth_mem) simp
  then show ?thesis by auto
qed

lemma str_nat_not_Nil: "str_nat n \<noteq> []"
  by (subst str_nat.simps) simp

lemma str_nat_no_minus: "CHR ''-'' \<notin> set (str_nat n)"
proof (induction n rule: str_nat.induct)
  case (1 n)
  show ?case
  proof (cases "n < 10")
    case True
    then show ?thesis using digit_char_not_minus [of n] by (subst str_nat.simps) auto
  next
    case False
    have "n mod 10 < 10" by simp
    then have "digit_char (n mod 10) \<noteq> CHR ''-''" by (rule digit_char_not_minus)
    with False 1 show ?thesis by (subst str_nat.simps) auto
  qed
qed

lemma str_nat_inj: "str_nat n = str_nat m \<Longrightarrow> n = m"
proof (induction n arbitrary: m rule: str_nat.induct)
  case (1 n)
  show ?case
  proof (cases "n < 10")
    case n: True
    show ?thesis
    proof (cases "m < 10")
      case True
      with n 1(2) show ?thesis
        by (simp add: str_nat.simps [of n] str_nat.simps [of m] digit_char_inj)
    next
      case False
      with n 1(2) show ?thesis
        using str_nat_not_Nil [of "m div 10"]
        by (simp add: str_nat.simps [of n] str_nat.simps [of m])
    qed
  next
    case n: False
    show ?thesis
    proof (cases "m < 10")
      case True
      with n 1(2) show ?thesis
        using str_nat_not_Nil [of "n div 10"]
        by (simp add: str_nat.simps [of n] str_nat.simps [of m])
    next
      case False
      with n 1(2) have eq: "str_nat (n div 10) = str_nat (m div 10)"
        and dg: "digit_char (n mod 10) = digit_char (m mod 10)"
        by (simp_all add: str_nat.simps [of n] str_nat.simps [of m])
      from 1(1) [OF n eq] have "n div 10 = m div 10" .
      moreover from dg have "n mod 10 = m mod 10" by (intro digit_char_inj) simp_all
      ultimately show ?thesis by (metis div_mult_mod_eq)
    qed
  qed
qed

lemma str_int_inj: "str_int i = str_int j \<Longrightarrow> i = j"
proof -
  assume a: "str_int i = str_int j"
  have hd_nat: "\<And>n. hd (str_nat n) \<noteq> CHR ''-''"
    using str_nat_no_minus str_nat_not_Nil by (metis hd_in_set)
  show ?thesis
  proof (cases "i < 0")
    case i: True
    show ?thesis
    proof (cases "j < 0")
      case True
      with i a have "str_nat (nat (- i)) = str_nat (nat (- j))" by (simp add: str_int_def)
      then have "nat (- i) = nat (- j)" by (rule str_nat_inj)
      with i True show ?thesis by simp
    next
      case False
      with i a have "CHR ''-'' # str_nat (nat (- i)) = str_nat (nat j)" by (simp add: str_int_def)
      then have "hd (str_nat (nat j)) = CHR ''-''" by (metis list.sel(1))
      with hd_nat show ?thesis by blast
    qed
  next
    case i: False
    show ?thesis
    proof (cases "j < 0")
      case True
      with i a have "CHR ''-'' # str_nat (nat (- j)) = str_nat (nat i)" by (simp add: str_int_def)
      then have "hd (str_nat (nat i)) = CHR ''-''" by (metis list.sel(1))
      with hd_nat show ?thesis by blast
    next
      case False
      with i a have "str_nat (nat i) = str_nat (nat j)" by (simp add: str_int_def)
      then have "nat i = nat j" by (rule str_nat_inj)
      with i False show ?thesis by simp
    qed
  qed
qed

lemma cluster_label_inj: "cluster_label i = cluster_label j \<Longrightarrow> i = j"
  by (simp add: cluster_label_def str_int_inj)

lemma summary_loop_fresh:
  "distinct ids \<Longrightarrow> cluster_label ` set ids \<inter> fst ` set acc = {} \<Longrightarrow>
   summary_loop df ids acc =
     acc @ map (\<lambda>c. (cluster_label c, PyList (persons_in_cluster df c))) ids"
proof (induction ids arbitrary: acc)
  case Nil
  then show ?case by simp
next
  case (Cons c ids)
  have fresh: "cluster_label c \<notin> fst ` set acc" using Cons.prems(2) by auto
  let ?acc = "acc @ [(cluster_label c, PyList (persons_in_cluster df c))]"
  have step: "dict_set acc (cluster_label c) (PyList (persons_in_cluster df c)) = ?acc"
    using fresh by (simp add: dict_set_def)
  have "cluster_label ` set ids \<inter> fst ` set ?acc = {}"
    using Cons.prems by (auto dest: cluster_label_inj)
  with Cons.IH [of ?acc] Cons.prems(1) step show ?case by simp
qed

subsection \<open>Frames\<close>

lemma columns_assign_old: "col \<in> set (columns df) \<Longrightarrow> columns (assign df col s) = columns df"
  by (induction df) (auto simp: assign_def columns_def)

lemma columns_assign_new:
  "col \<notin> set (columns df) \<Longrightarrow> columns (assign df col s) = columns df @ [col]"
  by (simp add: assign_def columns_def)

lemma set_columns_assign: "set (columns (assign df col s)) = insert col (set (columns df))"
  by (cases "col \<in> set (columns df)") (auto simp: columns_assign_old columns_assign_new)

lemma distinct_columns_assign:
  "distinct (columns df) \<Longrightarrow> distinct (columns (assign df col s))"
  by (cases "col \<in> set (columns df)") (auto simp: columns_assign_old columns_assign_new)

lemma nrows_assign:
  assumes "series_len (s :: 'f series) = nrows (df :: 'f dataframe)"
  shows "nrows (assign df col s) = nrows df"
proof (cases df)
  case Nil
  with assms show ?thesis by (simp add: assign_def columns_def)
next
  case (Cons a df')
  obtain c x where "a = (c, x)" by (cases a)
  with Cons assms show ?thesis by (simp add: assign_def columns_def)
qed

lemma map_of_replace:
  "map_of (map (\<lambda>(c, x). if c = col then (c, s) else (c, x)) df) k =
     (if k = col \<and> col \<in> fst ` set df then Some s else map_of df k)"
proof (induction df)
  case Nil
  then show ?case by simp
next
  case (Cons a df)
  obtain c x where a: "a = (c, x)" by (cases a)
  show ?case unfolding a using Cons.IH by (cases "c = col"; cases "k = col") (simp_all split: if_splits)
qed

lemma map_of_assign: "map_of (assign df col s) k = (if k = col then Some s else map_of df k)"
proof (cases "col \<in> set (columns df)")
  case True
  then show ?thesis by (simp add: assign_def map_of_replace columns_def)
next
  case False
  then have "map_of df col = None" by (simp add: columns_def map_of_eq_None_iff)
  with False show ?thesis by (auto simp: assign_def map_add_def split: option.splits)
qed

lemma set_assign:
  "(c, x) \<in> set (assign df col s) \<Longrightarrow> (c = col \<and> x = s) \<or> (c \<noteq> col \<and> (c, x) \<in> set df)"
  by (force simp: assign_def columns_def split: if_splits)

lemma wf_frame_assign:
  assumes "wf_frame (df :: 'f dataframe)" "series_len (s :: 'f series) = nrows df"
  shows "wf_frame (assign df col s)"
proof -
  have "distinct (columns (assign df col s))"
    using assms(1) by (simp add: wf_frame_def distinct_columns_assign)
  moreover have "series_len x = nrows (assign df col s)" if "(c, x) \<in> set (assign df col s)" for c x
    using set_assign [OF that] assms by (auto simp: nrows_assign wf_frame_def list_all_iff)
  ultimately show ?thesis by (auto simp: wf_frame_def list_all_iff)
qed

lemma wf_frame_lookup:
  "wf_frame (df :: 'f dataframe) \<Longrightarrow> map_of df c = Some s \<Longrightarrow> series_len s = nrows df"
  by (auto simp: wf_frame_def list_all_iff dest: map_of_SomeD)

lemma setitem_Inr:
  "setitem (df :: 'f dataframe) col s = Inr df' \<longleftrightarrow> series_len s = nrows df \<and> df' = assign df col s"
  by (auto simp: setitem_def)

lemma encode_loop_props:
  "encode_loop L cols (df :: 'f dataframe) = Inr df' \<Longrightarrow>
     nrows df' = nrows df \<and> columns df' = columns df \<and> (wf_frame df \<longrightarrow> wf_frame df') \<and>
     (\<forall>c. c \<notin> set cols \<longrightarrow> map_of df' c = map_of df c) \<and>
     (\<forall>c \<in> set cols. \<exists>codes. map_of df' c = Some (IntCol codes))"
proof (induction cols arbitrary: df)
  case Nil
  then show ?case by simp
next
  case (Cons col cols)
  from Cons.prems obtain s where s: "map_of df col = Some s"
    by (auto split: option.splits)
  with Cons.prems obtain codes where le: "LabelEncoder_fit_transform L s = Inr codes"
    by (auto split: sum.splits)
  with s Cons.prems have
    len: "series_len (IntCol codes :: 'f series) = nrows df" and
    rest: "encode_loop L cols (assign df col (IntCol codes)) = Inr df'"
    by (auto simp: setitem_Inr split: sum.splits)
  let ?d = "assign df col (IntCol codes)"
  have mem: "col \<in> set (columns df)" using s by (auto simp: columns_def dest: map_of_SomeD intro: rev_image_eqI)
  note ih = Cons.IH [OF rest]
  have 1: "nrows df' = nrows df" using ih len by (simp add: nrows_assign)
  have 2: "columns df' = columns df" using ih mem by (simp add: columns_assign_old)
  have 3: "wf_frame df \<longrightarrow> wf_frame df'" using ih len by (simp add: wf_frame_assign)
  have 4: "\<forall>c. c \<notin> set (col # cols) \<longrightarrow> map_of df' c = map_of df c"
    using ih by (simp add: map_of_assign)
  have 5: "\<forall>c \<in> set (col # cols). \<exists>codes. map_of df' c = Some (IntCol codes)"
  proof
    fix c assume c: "c \<in> set (col # cols)"
    show "\<exists>codes. map_of df' c = Some (IntCol codes)"
    proof (cases "c \<in> set cols")
      case True
      with ih show ?thesis by blast
    next
      case False
      with c have "c = col" by simp
      with False ih have "map_of df' c = Some (IntCol codes)" by (simp add: map_of_assign)
      then show ?thesis by blast
    qed
  qed
  from 1 2 3 4 5 show ?case by blast
qed

lemma encode_categorical_columns_props:
  assumes "encode_categorical_columns L df = Inr df'"
  shows "nrows df' = nrows df" "columns df' = columns df" "wf_frame df \<Longrightarrow> wf_frame df'"
    "c \<notin> set candidate_columns \<Longrightarrow> map_of df' c = map_of df c"
  using assms encode_loop_props [of L "filter (\<lambda>col. col \<in> set (columns df)) candidate_columns" df df']
  by (auto simp: encode_categorical_columns_def Let_def split: if_splits)

lemma assign_columns_props:
  "list_all (\<lambda>j. series_len (FloatCol (map (\<lambda>row. row ! j) arr :: 'f list)) = nrows df) (map snd cjs) \<Longrightarrow>
   set (map fst cjs) \<subseteq> set (columns df) \<Longrightarrow>
     nrows (assign_columns df cjs arr) = nrows df \<and>
     columns (assign_columns df cjs arr) = columns df \<and>
     (wf_frame df \<longrightarrow> wf_frame (assign_columns df cjs arr)) \<and>
     (\<forall>c. c \<notin> fst ` set cjs \<longrightarrow> map_of (assign_columns df cjs arr) c = map_of (df :: 'f dataframe) c)"
proof (induction cjs arbitrary: df)
  case Nil
  then show ?case by simp
next
  case (Cons cj cjs)
  obtain col j where cj: "cj = (col, j)" by (cases cj)
  let ?s = "FloatCol (map (\<lambda>row. row ! j) arr) :: 'f series"
  let ?d = "assign df col ?s"
  have len: "series_len ?s = nrows df" using Cons.prems(1) cj by simp
  have mem: "col \<in> set (columns df)" using Cons.prems(2) cj by simp
  have n: "nrows ?d = nrows df" using len by (rule nrows_assign)
  have c: "columns ?d = columns df" using mem by (rule columns_assign_old)
  have "list_all (\<lambda>j. series_len (FloatCol (map (\<lambda>row. row ! j) arr :: 'f list)) = nrows ?d) (map snd cjs)"
    using Cons.prems(1) n by simp
  moreover have "set (map fst cjs) \<subseteq> set (columns ?d)" using Cons.prems(2) c by simp
  ultimately have ih: "nrows (assign_columns ?d cjs arr) = nrows ?d \<and>
     columns (assign_columns ?d cjs arr) = columns ?d \<and>
     (wf_frame ?d \<longrightarrow> wf_frame (assign_columns ?d cjs arr)) \<and>
     (\<forall>c. c \<notin> fst ` set cjs \<longrightarrow> map_of (assign_columns ?d cjs arr) c = map_of ?d c)"
    by (rule Cons.IH)
  have w: "wf_frame df \<longrightarrow> wf_frame ?d" using len by (simp add: wf_frame_assign)
  show ?case using ih n c w cj by (auto simp: map_of_assign)
qed

lemma assign_columns_other:
  "col \<notin> fst ` set cjs \<Longrightarrow> map_of (assign_columns df cjs arr) col = map_of df col"
proof (induction cjs arbitrary: df)
  case Nil
  then show ?case by simp
next
  case (Cons cj cjs)
  obtain c i where cj: "cj = (c, i)" by (cases cj)
  with Cons.prems have ne: "c \<noteq> col" and notin: "col \<notin> fst ` set cjs" by auto
  show ?case using Cons.IH [OF notin] ne cj by (simp add: map_of_assign)
qed

lemma assign_columns_lookup:
  "distinct (map fst cjs) \<Longrightarrow> (col, j) \<in> set cjs \<Longrightarrow>
   map_of (assign_columns df cjs arr) col = Some (FloatCol (map (\<lambda>row. row ! j) arr))"
proof (induction cjs arbitrary: df)
  case Nil
  then show ?case by simp
next
  case (Cons cj cjs)
  obtain c i where cj: "cj = (c, i)" by (cases cj)
  show ?case
  proof (cases "(col, j) \<in> set cjs")
    case True
    with Cons.IH Cons.prems(1) cj show ?thesis by simp
  next
    case False
    with Cons.prems(2) cj have eq: "c = col" "i = j" by auto
    have notin: "col \<notin> fst ` set cjs" using Cons.prems(1) cj eq by auto
    show ?thesis using cj eq by (simp add: map_of_assign assign_columns_other [OF notin])
  qed
qed

lemma columns_select_dtypes_number:
  "distinct (columns df) \<Longrightarrow>
   columns (select_dtypes_number df) =
     filter (\<lambda>c. \<exists>s. map_of df c = Some s \<and> is_number s) (columns df)"
proof (induction df)
  case Nil
  then show ?case by (simp add: columns_def select_dtypes_number_def)
next
  case (Cons a df)
  obtain c s where a: "a = (c, s)" by (cases a)
  from Cons.prems a have notin: "c \<notin> set (columns df)" and d: "distinct (columns df)"
    by (simp_all add: columns_def)
  have "filter (\<lambda>c'. \<exists>s'. map_of (a # df) c' = Some s' \<and> is_number s') (columns df)
      = filter (\<lambda>c'. \<exists>s'. map_of df c' = Some s' \<and> is_number s') (columns df)"
    using notin a by (intro filter_cong) auto
  with Cons.IH [OF d] a show ?case
    by (simp add: columns_def select_dtypes_number_def)
qed


lemma nrows_subframe:
  assumes "wf_frame (df :: 'f dataframe)" "set X \<subseteq> set df" "X \<noteq> []"
  shows "nrows X = nrows df"
proof -
  from assms(3) obtain c s X' where X: "X = (c, s) # X'" by (cases X) auto
  with assms(2) have "(c, s) \<in> set df" by auto
  with assms(1) have "series_len s = nrows df" by (auto simp: wf_frame_def list_all_iff)
  with X show ?thesis by simp
qed

lemma nrows_select_dtypes_number:
  "wf_frame df \<Longrightarrow> select_dtypes_number df \<noteq> [] \<Longrightarrow> nrows (select_dtypes_number df) = nrows df"
  by (rule nrows_subframe) (auto simp: select_dtypes_number_def)

lemma setitems_Inr:
  "setitems (df :: 'f dataframe) cols arr = Inr df' \<longleftrightarrow>
     length arr = nrows df \<and> list_all (\<lambda>row. length row = length cols) arr \<and>
     df' = assign_columns df (zip cols [0..<length cols]) arr"
  by (auto simp: setitems_def)

lemma scale_numeric_columns_Inr:
  assumes "scale_numeric_columns L df = Inr (df', nc)"
  shows "nc = columns (select_dtypes_number df)"
    and "nc = [] \<Longrightarrow> df' = df"
    and "nc \<noteq> [] \<Longrightarrow> \<exists>arr. StandardScaler_fit_transform L (getitems df nc) = Inr arr \<and>
           length arr = nrows df \<and> list_all (\<lambda>row. length row = length nc) arr \<and>
           df' = assign_columns df (zip nc [0..<length nc]) arr"
  using assms
  by (auto simp: scale_numeric_columns_def Let_def setitems_Inr split: if_splits sum.splits)

lemma scale_numeric_columns_props:
  assumes sc: "scale_numeric_columns L df = Inr (df', nc)" and wf: "wf_frame (df :: 'f dataframe)"
  shows "nrows df' = nrows df" "columns df' = columns df" "wf_frame df'"
    "\<And>c. c \<notin> set nc \<Longrightarrow> map_of df' c = map_of df c"
    "\<And>c. c \<in> set nc \<Longrightarrow> \<exists>xs. map_of df' c = Some (FloatCol xs)"
    "columns (select_dtypes_number df') = nc"
proof -
  note nc = scale_numeric_columns_Inr(1) [OF sc]
  have dist: "distinct (columns df)" using wf by (simp add: wf_frame_def)
  have sub: "set nc \<subseteq> set (columns df)"
    unfolding nc by (auto simp: select_dtypes_number_def columns_def)
  have dnc: "distinct nc"
    unfolding nc using dist by (simp add: columns_select_dtypes_number)
  have main: "nrows df' = nrows df \<and> columns df' = columns df \<and> wf_frame df' \<and>
      (\<forall>c. c \<notin> set nc \<longrightarrow> map_of df' c = map_of df c) \<and>
      (\<forall>c \<in> set nc. \<exists>xs. map_of df' c = Some (FloatCol xs))"
  proof (cases "nc = []")
    case True
    with scale_numeric_columns_Inr(2) [OF sc] wf show ?thesis by simp
  next
    case False
    from scale_numeric_columns_Inr(3) [OF sc False] obtain arr where
      len: "length arr = nrows df" and
      df': "df' = assign_columns df (zip nc [0..<length nc]) arr" by blast
    let ?cjs = "zip nc [0..<length nc]"
    have fst_cjs: "map fst ?cjs = nc" by simp
    have "list_all (\<lambda>j. series_len (FloatCol (map (\<lambda>row. row ! j) arr :: 'f list)) = nrows df)
            (map snd ?cjs)"
      using len by (simp add: list_all_iff series_len_def)
    moreover have "set (map fst ?cjs) \<subseteq> set (columns df)" using sub by (simp only: fst_cjs)
    ultimately have p: "nrows (assign_columns df ?cjs arr) = nrows df \<and>
       columns (assign_columns df ?cjs arr) = columns df \<and>
       (wf_frame df \<longrightarrow> wf_frame (assign_columns df ?cjs arr)) \<and>
       (\<forall>c. c \<notin> fst ` set ?cjs \<longrightarrow> map_of (assign_columns df ?cjs arr) c = map_of df c)"
      by (rule assign_columns_props)
    have img: "fst ` set ?cjs = set nc" using fst_cjs by (metis set_map)
    have "\<exists>xs. map_of df' c = Some (FloatCol xs)" if "c \<in> set nc" for c
    proof -
      from that obtain j where j: "j < length nc" "nc ! j = c" by (auto simp: in_set_conv_nth)
      then have "(c, j) \<in> set ?cjs" by (auto simp: set_zip)
      moreover have "distinct (map fst ?cjs)" using dnc by (simp only: fst_cjs)
      ultimately show ?thesis unfolding df' using assign_columns_lookup by blast
    qed
    with p wf img show ?thesis unfolding df' by auto
  qed
  from main show "nrows df' = nrows df" "columns df' = columns df" and wf': "wf_frame df'"
    and oth: "\<And>c. c \<notin> set nc \<Longrightarrow> map_of df' c = map_of df c"
    and num: "\<And>c. c \<in> set nc \<Longrightarrow> \<exists>xs. map_of df' c = Some (FloatCol xs)"
    by blast+
  have cols: "columns df' = columns df" using main by blast
  have dist': "distinct (columns df')" using cols dist by simp
  have "filter (\<lambda>c. \<exists>s. map_of df' c = Some s \<and> is_number s) (columns df)
      = filter (\<lambda>c. \<exists>s. map_of df c = Some s \<and> is_number s) (columns df)"
  proof (intro filter_cong refl)
    fix c assume "c \<in> set (columns df)"
    show "(\<exists>s. map_of df' c = Some s \<and> is_number s) = (\<exists>s. map_of df c = Some s \<and> is_number s)"
    proof (cases "c \<in> set nc")
      case True
      from num [OF True] have "\<exists>s. map_of df' c = Some s \<and> is_number s" by auto
      moreover from True have "\<exists>s. map_of df c = Some s \<and> is_number s"
        unfolding nc columns_select_dtypes_number [OF dist] by simp
      ultimately show ?thesis by simp
    next
      case False
      with oth show ?thesis by simp
    qed
  qed
  then show "columns (select_dtypes_number df') = nc"
    unfolding nc columns_select_dtypes_number [OF dist] columns_select_dtypes_number [OF dist'] cols .
qed

subsection \<open>The stages of a successful run\<close>

lemma run_clustering_pipeline_InrE:
  assumes "run_clustering_pipeline L file_bytes k_opt = Inr res"
  obtains df df1 df2 nc labels where
    "read_csv L file_bytes = Inr df"
    "''name'' \<in> set (columns df)"
    "encode_categorical_columns L df = Inr df1"
    "scale_numeric_columns L df1 = Inr (df2, nc)"
    "nc \<noteq> []"
    "KMeans_fit_predict L k_opt (Some 42) 10 (select_dtypes_number df2) = Inr labels"
    "length labels = nrows df2"
    "res = [(''number_of_clusters'', PyInt k_opt),
            (''clusters'', PyDict (summary_loop (assign df2 ''Cluster'' (IntCol labels))
                 (sorted_unique_clusters (assign df2 ''Cluster'' (IntCol labels))) [])),
            (''raw_clusters'', PyList (to_dict_records (assign df2 ''Cluster'' (IntCol labels))))]"
proof -
  from assms obtain df where 1: "read_csv L file_bytes = Inr df"
    by (auto simp: run_clustering_pipeline_def split: sum.splits)
  with assms have 2: "''name'' \<in> set (columns df)"
    by (auto simp: run_clustering_pipeline_def split: if_splits)
  with 1 assms obtain df1 where 3: "encode_categorical_columns L df = Inr df1"
    by (auto simp: run_clustering_pipeline_def split: sum.splits)
  with 1 2 assms obtain df2 nc where 4: "scale_numeric_columns L df1 = Inr (df2, nc)"
    by (auto simp: run_clustering_pipeline_def split: sum.splits)
  with 1 2 3 assms have 5: "nc \<noteq> []"
    by (auto simp: run_clustering_pipeline_def split: if_splits)
  with 1 2 3 4 assms obtain labels where
    6: "KMeans_fit_predict L k_opt (Some 42) 10 (select_dtypes_number df2) = Inr labels"
    by (auto simp: run_clustering_pipeline_def split: sum.splits)
  with 1 2 3 4 5 assms have 7: "length labels = nrows df2"
    and 8: "res = [(''number_of_clusters'', PyInt k_opt),
            (''clusters'', PyDict (summary_loop (assign df2 ''Cluster'' (IntCol labels))
                 (sorted_unique_clusters (assign df2 ''Cluster'' (IntCol labels))) [])),
            (''raw_clusters'', PyList (to_dict_records (assign df2 ''Cluster'' (IntCol labels))))]"
    by (auto simp: run_clustering_pipeline_def setitem_def series_len_def split: sum.splits if_splits)
  from 1 2 3 4 5 6 7 8 show thesis by (rule that)
qed

lemma zip_filter_rows:
  assumes "length labels = length names"
  shows "map snd (filter (\<lambda>(l, v). l = PyInt c) (zip (map PyInt labels) names)) =
           map ((!) names) (rows_with_label labels c)"
proof -
  let ?n = "length labels"
  have z: "zip (map PyInt labels) names = map (\<lambda>i. (PyInt (labels ! i), names ! i)) [0..<?n]"
    using assms by (intro nth_equalityI) simp_all
  show ?thesis
    unfolding z rows_with_label_def by (simp add: filter_map comp_def)
qed

lemma length_rows_with_label: "length (rows_with_label labels c) = count_list labels c"
proof -
  have "filter (\<lambda>x. x = c) labels = filter (\<lambda>x. x = c) (map ((!) labels) [0..<length labels])"
    by (simp only: map_nth)
  also have "\<dots> = map ((!) labels) (rows_with_label labels c)"
    by (simp add: filter_map comp_def rows_with_label_def)
  finally have "length (filter (\<lambda>x. x = c) labels) = length (rows_with_label labels c)"
    by simp
  moreover have "filter (\<lambda>x. x = c) labels = filter ((=) c) labels"
    by (rule filter_cong) auto
  ultimately show ?thesis by (simp add: count_list_eq_length_filter)
qed

lemma sum_rows_with_label:
  "(\<Sum>c\<leftarrow>sort (remdups labels). length (rows_with_label labels c)) = length labels"
proof -
  have "(\<Sum>c\<leftarrow>sort (remdups labels). length (rows_with_label labels c)) =
          (\<Sum>c\<leftarrow>sort (remdups labels). count_list labels c)"
    by (simp add: length_rows_with_label)
  also have "\<dots> = sum (count_list labels) (set (sort (remdups labels)))"
    by (rule sum_list_distinct_conv_sum_set) simp
  also have "\<dots> = length labels"
    by (simp add: sum_count_set)
  finally show ?thesis .
qed

lemma set_rows_with_label:
  "i \<in> set (rows_with_label labels c) \<longleftrightarrow> i < length labels \<and> labels ! i = c"
  by (auto simp: rows_with_label_def)

lemma rows_with_label_unique:
  "i < length labels \<Longrightarrow>
   \<exists>!c. c \<in> set (sort (remdups labels)) \<and> i \<in> set (rows_with_label labels c)"
  by (auto simp: set_rows_with_label)

lemma sorted_rows_with_label: "sorted_wrt (<) (rows_with_label labels c)"
  unfolding rows_with_label_def by (intro sorted_wrt_filter) simp

lemma distinct_cluster_labels: "distinct ids \<Longrightarrow> distinct (map cluster_label ids)"
  by (simp add: distinct_map inj_on_def cluster_label_inj)

lemma sorted_unique_clusters_assign:
  "sorted_unique_clusters (assign df ''Cluster'' (IntCol labels)) = sort (remdups labels)"
  by (simp add: sorted_unique_clusters_def map_of_assign)

lemma persons_in_cluster_assign:
  assumes "map_of df ''name'' = Some nm" "length labels = length (tolist nm)"
  shows "persons_in_cluster (assign df ''Cluster'' (IntCol labels)) c =
           map ((!) (tolist nm)) (rows_with_label labels c)"
  using assms by (simp add: persons_in_cluster_def map_of_assign zip_filter_rows)

lemma summary_loop_assign:
  assumes "map_of df ''name'' = Some nm" "length labels = length (tolist nm)"
  shows "summary_loop (assign df ''Cluster'' (IntCol labels))
           (sorted_unique_clusters (assign df ''Cluster'' (IntCol labels))) [] =
         map (\<lambda>c. (cluster_label c, PyList (map ((!) (tolist nm)) (rows_with_label labels c))))
           (sort (remdups labels))"
proof -
  have "distinct (sort (remdups labels))" by simp
  then show ?thesis
    by (simp add: sorted_unique_clusters_assign summary_loop_fresh
        persons_in_cluster_assign [OF assms])
qed

lemma columns_lookup: "c \<in> set (columns df) \<Longrightarrow> \<exists>s. map_of df c = Some s"
  by (metis columns_def map_of_eq_None_iff not_Some_eq set_map)

lemma to_dict_records_nth:
  assumes "i < nrows df"
  shows "to_dict_records df ! i = PyDict (map (\<lambda>(c, s). (c, tolist s ! i)) df)"
  using assms by (simp add: to_dict_records_def)

lemma map_of_record:
  "map_of (map (\<lambda>(c, s). (c, tolist s ! i)) df) k = map_option (\<lambda>s. tolist s ! i) (map_of df k)"
  by (induction df) auto

lemma successful_run:
  assumes rd: "read_csv L file_bytes = Inr df"
    and wf: "wf_frame df"
    and run: "run_clustering_pipeline L file_bytes k_opt = Inr res"
  obtains df1 df2 nc labels nm where
    "''name'' \<in> set (columns df)"
    "encode_categorical_columns L df = Inr df1"
    "scale_numeric_columns L df1 = Inr (df2, nc)"
    "nc \<noteq> []" "wf_frame df1" "wf_frame df2" "nrows df2 = nrows df" "columns df2 = columns df"
    "KMeans_fit_predict L k_opt (Some 42) 10 (select_dtypes_number df2) = Inr labels"
    "length labels = nrows df"
    "map_of df2 ''name'' = Some nm" "length (tolist nm) = nrows df"
    "res = [(''number_of_clusters'', PyInt k_opt),
            (''clusters'', PyDict (map (\<lambda>c. (cluster_label c,
                 PyList (map ((!) (tolist nm)) (rows_with_label labels c)))) (sort (remdups labels)))),
            (''raw_clusters'', PyList (to_dict_records (assign df2 ''Cluster'' (IntCol labels))))]"
proof -
  from run obtain df0 df1 df2 nc labels where
    rd0: "read_csv L file_bytes = Inr df0" and
    nm: "''name'' \<in> set (columns df0)" and
    enc: "encode_categorical_columns L df0 = Inr df1" and
    sc: "scale_numeric_columns L df1 = Inr (df2, nc)" and
    nc: "nc \<noteq> []" and
    km: "KMeans_fit_predict L k_opt (Some 42) 10 (select_dtypes_number df2) = Inr labels" and
    len: "length labels = nrows df2" and
    res: "res = [(''number_of_clusters'', PyInt k_opt),
            (''clusters'', PyDict (summary_loop (assign df2 ''Cluster'' (IntCol labels))
                 (sorted_unique_clusters (assign df2 ''Cluster'' (IntCol labels))) [])),
            (''raw_clusters'', PyList (to_dict_records (assign df2 ''Cluster'' (IntCol labels))))]"
    by (rule run_clustering_pipeline_InrE)
  from rd rd0 have eq: "df0 = df" by simp
  note e = encode_categorical_columns_props [OF enc [unfolded eq]]
  have wf1: "wf_frame df1" using e(3) wf by simp
  note s = scale_numeric_columns_props [OF sc wf1]
  have n2: "nrows df2 = nrows df" using s(1) e(1) by simp
  have c2: "columns df2 = columns df" using s(2) e(2) by simp
  have "''name'' \<in> set (columns df2)" using nm c2 eq by simp
  then obtain nm2 where nm2: "map_of df2 ''name'' = Some nm2" using columns_lookup by blast
  have lnames: "length (tolist nm2) = nrows df"
    using wf_frame_lookup [OF s(3) nm2] n2 by (simp add: series_len_def)
  have ll: "length labels = length (tolist nm2)" using len n2 lnames by simp
  have res': "res = [(''number_of_clusters'', PyInt k_opt),
            (''clusters'', PyDict (map (\<lambda>c. (cluster_label c,
                 PyList (map ((!) (tolist nm2)) (rows_with_label labels c)))) (sort (remdups labels)))),
            (''raw_clusters'', PyList (to_dict_records (assign df2 ''Cluster'' (IntCol labels))))]"
    by (simp add: res summary_loop_assign [OF nm2 ll])
  show thesis
    using nm [unfolded eq] enc [unfolded eq] sc nc wf1 s(3) n2 c2 km len [unfolded n2] nm2 lnames res'
    by (rule that)
qed

lemma rows_with_label_nonempty: "c \<in> set labels \<Longrightarrow> rows_with_label labels c \<noteq> []"
proof -
  assume "c \<in> set labels"
  then obtain i where "i < length labels" "labels ! i = c" by (auto simp: in_set_conv_nth)
  then have "i \<in> set (rows_with_label labels c)" by (simp add: set_rows_with_label)
  then show ?thesis by auto
qed

lemma run_reaches_clustering:
  assumes "read_csv L file_bytes = Inr df"
    and "''name'' \<in> set (columns df)"
    and "encode_categorical_columns L df = Inr df1"
    and "scale_numeric_columns L df1 = Inr (df2, nc)"
    and "nc \<noteq> []"
  shows "run_clustering_pipeline L file_bytes k_opt =
     (case KMeans_fit_predict L k_opt (Some 42) 10 (select_dtypes_number df2) of
        Inl e \<Rightarrow> Inl e
      | Inr labels \<Rightarrow>
          (case setitem df2 ''Cluster'' (IntCol labels) of
             Inl e \<Rightarrow> Inl e
           | Inr df3 \<Rightarrow>
               Inr [(''number_of_clusters'', PyInt k_opt),
                    (''clusters'', PyDict (summary_loop df3 (sorted_unique_clusters df3) [])),
                    (''raw_clusters'', PyList (to_dict_records df3))]))"
  using assms by (simp add: run_clustering_pipeline_def)

lemma feature_matrix_rows:
  assumes wf: "wf_frame df"
    and enc: "encode_categorical_columns L df = Inr df1"
    and sc: "scale_numeric_columns L df1 = Inr (df2, nc)"
    and nc: "nc \<noteq> []"
  shows "nrows (select_dtypes_number df2) = nrows df" "nrows df2 = nrows df" "wf_frame df2"
proof -
  note e = encode_categorical_columns_props [OF enc]
  have wf1: "wf_frame df1" using e(3) wf by simp
  note s = scale_numeric_columns_props [OF sc wf1]
  show n2: "nrows df2 = nrows df" using s(1) e(1) by simp
  show "wf_frame df2" by (rule s(3))
  have "select_dtypes_number df2 \<noteq> []" using s(6) nc by (auto simp: columns_def)
  with s(3) n2 show "nrows (select_dtypes_number df2) = nrows df"
    by (simp add: nrows_select_dtypes_number)
qed

lemma encode_loop_cong:
  assumes "LabelEncoder_fit_transform L1 = LabelEncoder_fit_transform L2"
  shows "encode_loop L1 cols df = encode_loop L2 cols df"
  by (induction cols arbitrary: df) (simp_all add: assms split: option.splits sum.splits)

subsection \<open>An export parses back to its payload\<close>

paragraph \<open>White space\<close>

lemma skip_ws_append: "list_all is_ws w \<Longrightarrow> skip_ws (w @ s) = skip_ws s"
  by (simp add: skip_ws_def list_all_iff dropWhile_append2)

lemma skip_ws_Cons: "\<not> is_ws c \<Longrightarrow> skip_ws (c # s) = c # s"
  by (simp add: skip_ws_def)

lemma newline_indent_ws: "list_all is_ws (newline_indent ind level)"
  by (simp add: newline_indent_def is_ws_def list_all_iff)

lemma newline_indent_not_Nil: "newline_indent ind level \<noteq> []"
  by (simp add: newline_indent_def)

lemma ws_not_number: "is_ws c \<Longrightarrow> \<not> number_char c"
  by (auto simp: is_ws_def number_char_def is_digit_def)

lemma ends_number_ws: "list_all is_ws w \<Longrightarrow> ends_number (w @ c # s) \<longleftrightarrow> (if w = [] then \<not> number_char c else True)"
  by (cases w) (auto simp: ends_number_def ws_not_number)

paragraph \<open>Integers\<close>

lemma less_10_cases:
  assumes "d < (10::nat)"
  obtains "d = 0" | "d = 1" | "d = 2" | "d = 3" | "d = 4" | "d = 5" | "d = 6" | "d = 7"
    | "d = 8" | "d = 9"
proof -
  have "d \<in> set [0..<10]" using assms by simp
  also have "[0..<10] = [0, 1, 2, 3, 4, 5, 6, 7, 8, 9 :: nat]" by (simp add: upt_rec)
  finally show thesis using that by auto
qed

lemma digit_char_code: "d < 10 \<Longrightarrow> (of_char (digit_char d) :: nat) = 48 + d"
  by (erule less_10_cases) (simp_all add: digit_char_def)

lemma is_digit_digit_char: "d < 10 \<Longrightarrow> is_digit (digit_char d)"
  by (simp add: is_digit_def digit_char_code)

lemma str_nat_digits: "list_all is_digit (str_nat n)"
proof (induction n rule: str_nat.induct)
  case (1 n)
  show ?case
  proof (cases "n < 10")
    case True
    then show ?thesis by (subst str_nat.simps) (simp add: is_digit_digit_char)
  next
    case False
    with 1 show ?thesis by (subst str_nat.simps) (simp add: is_digit_digit_char)
  qed
qed

lemma nat_of_digits_snoc:
  "nat_of_digits (s @ [c]) = 10 * nat_of_digits s + ((of_char c :: nat) - 48)"
  by (simp add: nat_of_digits_def)

lemma nat_of_digits_str_nat: "nat_of_digits (str_nat n) = n"
proof (induction n rule: str_nat.induct)
  case (1 n)
  show ?case
  proof (cases "n < 10")
    case True
    then show ?thesis
      by (subst str_nat.simps) (simp add: nat_of_digits_def digit_char_code)
  next
    case False
    with 1 have "nat_of_digits (str_nat (n div 10)) = n div 10" by simp
    with False show ?thesis
      by (subst str_nat.simps) (simp add: nat_of_digits_snoc digit_char_code)
  qed
qed

lemma digit_char_zero: "d < 10 \<Longrightarrow> digit_char d = CHR ''0'' \<longleftrightarrow> d = 0"
proof -
  assume d: "d < 10"
  have "digit_char 0 = CHR ''0''" by (simp add: digit_char_def)
  with d show ?thesis using digit_char_inj [of d 0] by auto
qed

lemma hd_str_nat_nonzero: "0 < n \<Longrightarrow> hd (str_nat n) \<noteq> CHR ''0''"
proof (induction n rule: str_nat.induct)
  case (1 n)
  show ?case
  proof (cases "n < 10")
    case True
    with 1(2) show ?thesis by (subst str_nat.simps) (simp add: digit_char_zero)
  next
    case False
    then have "0 < n div 10" by simp
    with 1(1) False have "hd (str_nat (n div 10)) \<noteq> CHR ''0''" by simp
    moreover have "hd (str_nat n) = hd (str_nat (n div 10))"
      using False str_nat_not_Nil [of "n div 10"] by (subst str_nat.simps) simp
    ultimately show ?thesis by simp
  qed
qed

lemma str_nat_no_leading_zero: "length (str_nat n) = 1 \<or> hd (str_nat n) \<noteq> CHR ''0''"
proof (cases "n = 0")
  case True
  then show ?thesis by (simp add: str_nat.simps [of 0])
next
  case False
  then show ?thesis by (simp add: hd_str_nat_nonzero)
qed

lemma str_nat_first: "\<exists>c cs. str_nat n = c # cs \<and> is_digit c"
  using str_nat_not_Nil [of n] str_nat_digits [of n] by (cases "str_nat n") auto

lemma not_digit_minus: "\<not> is_digit (CHR ''-'')"
  by (simp add: is_digit_def)

lemma int_literal_str_int: "int_literal (str_int i)"
proof (cases "i < 0")
  case True
  then show ?thesis
    using str_nat_not_Nil [of "nat (- i)"] str_nat_digits [of "nat (- i)"]
      str_nat_no_leading_zero [of "nat (- i)"]
    by (simp add: int_literal_def str_int_def)
next
  case False
  obtain c cs where c: "str_nat (nat i) = c # cs" "is_digit c" using str_nat_first by blast
  then have "c \<noteq> CHR ''-''" using not_digit_minus by auto
  with False c show ?thesis
    using str_nat_digits [of "nat i"] str_nat_no_leading_zero [of "nat i"]
    by (simp add: int_literal_def str_int_def)
qed

lemma int_of_literal_str_int: "int_of_literal (str_int i) = i"
proof (cases "i < 0")
  case True
  then show ?thesis by (simp add: int_of_literal_def str_int_def nat_of_digits_str_nat)
next
  case False
  obtain c cs where c: "str_nat (nat i) = c # cs" "is_digit c" using str_nat_first by blast
  then have "c \<noteq> CHR ''-''" using not_digit_minus by auto
  with False c show ?thesis
    using nat_of_digits_str_nat [of "nat i"] by (simp add: int_of_literal_def str_int_def)
qed

lemma str_int_number_chars: "list_all number_char (str_int i)"
  using str_nat_digits [of "nat i"] str_nat_digits [of "nat (- i)"]
  by (auto simp: str_int_def number_char_def list_all_iff)

lemma str_int_first: "\<exists>c cs. str_int i = c # cs \<and> (c = CHR ''-'' \<or> is_digit c)"
  using str_nat_first [of "nat i"] by (auto simp: str_int_def)

lemma takeWhile_token:
  "list_all P t \<Longrightarrow> (case rest of [] \<Rightarrow> True | c # cs \<Rightarrow> \<not> P c) \<Longrightarrow>
   takeWhile P (t @ rest) = t \<and> dropWhile P (t @ rest) = rest"
  by (cases rest) (simp_all add: list_all_iff takeWhile_append2 dropWhile_append2)

lemma scan_number_int:
  "ends_number rest \<Longrightarrow> scan_number float_of (str_int i @ rest) = Some (PyInt i, rest)"
  using takeWhile_token [of number_char "str_int i" rest]
  by (simp add: scan_number_def ends_number_def str_int_number_chars int_literal_str_int
      int_of_literal_str_int)

lemma scan_number_float:
  assumes "float_text_ok float_of float_repr x" "ends_number rest"
  shows "scan_number float_of (float_repr x @ rest) = Some (PyFloat x, rest)"
proof -
  from assms(1) obtain c cs where t: "float_repr x = c # cs"
    and ok: "list_all number_char (c # cs)" "\<not> int_literal (c # cs)" "float_of (c # cs) = Some x"
    by (auto simp: float_text_ok_def split: list.splits)
  from takeWhile_token [of number_char "c # cs" rest] ok(1) assms(2)
  have "takeWhile number_char ((c # cs) @ rest) = c # cs \<and>
        dropWhile number_char ((c # cs) @ rest) = rest"
    by (simp add: ends_number_def)
  with ok show ?thesis unfolding t by (simp add: scan_number_def)
qed

paragraph \<open>Strings\<close>

lemma less_16_cases:
  assumes "d < (16::nat)"
  obtains "d = 0" | "d = 1" | "d = 2" | "d = 3" | "d = 4" | "d = 5" | "d = 6" | "d = 7"
    | "d = 8" | "d = 9" | "d = 10" | "d = 11" | "d = 12" | "d = 13" | "d = 14" | "d = 15"
proof -
  have "d \<in> set [0..<16]" using assms by simp
  also have "[0..<16] = [0, 1, 2, 3, 4, 5, 6, 7, 8, 9, 10, 11, 12, 13, 14, 15 :: nat]"
    by (simp add: upt_rec)
  finally show thesis using that by auto
qed

lemma hex_value_hex_digit: "d < 16 \<Longrightarrow> hex_value (hex_digit d) = Some d"
  by (erule less_16_cases) (simp_all add: hex_value_def hex_digit_def)

lemma of_char_less_256: "(of_char c :: nat) < 256"
proof -
  have "(of_char c :: nat) mod 256 < 256" by simp
  then show ?thesis by (simp only: of_char_mod_256)
qed

lemma scanstring_unicode_escape:
  assumes "scanstring s' = Some (str, r)"
  shows "scanstring ([CHR 0x5C, CHR ''u'', CHR ''0'', CHR ''0'',
            hex_digit ((of_char c :: nat) div 16), hex_digit ((of_char c :: nat) mod 16)] @ s')
         = Some (c # str, r)"
proof -
  let ?n = "of_char c :: nat"
  have d: "?n div 16 < 16"
    by (rule less_mult_imp_div_less) (use of_char_less_256 [of c] in simp)
  have m: "?n mod 16 < 16" by simp
  have z: "hex_value (CHR ''0'') = Some 0" by (simp add: hex_value_def)
  have v: "((0 * 16 + 0) * 16 + ?n div 16) * 16 + ?n mod 16 = ?n" by simp
  show ?thesis
    using assms of_char_less_256 [of c]
    by (simp add: z hex_value_hex_digit [OF d] hex_value_hex_digit [OF m])
qed

lemma scanstring_escape_char:
  assumes "scanstring s' = Some (str, r)"
  shows "scanstring (escape_char c @ s') = Some (c # str, r)"
proof -
  consider (bs) "c = CHR 0x5C" | (qu) "c = CHR 0x22" | (b) "c = CHR 0x08" | (f) "c = CHR 0x0C"
    | (n) "c = CHR 0x0A" | (r) "c = CHR 0x0D" | (t) "c = CHR 0x09"
    | (plain) "c \<noteq> CHR 0x5C" "c \<noteq> CHR 0x22" "32 \<le> (of_char c :: nat)" "(of_char c :: nat) \<le> 126"
    | (other) "c \<noteq> CHR 0x5C" "c \<noteq> CHR 0x22" "c \<noteq> CHR 0x08" "c \<noteq> CHR 0x0C" "c \<noteq> CHR 0x0A"
        "c \<noteq> CHR 0x0D" "c \<noteq> CHR 0x09" "\<not> (32 \<le> (of_char c :: nat) \<and> (of_char c :: nat) \<le> 126)"
    by blast
  then show ?thesis
  proof cases
    case bs
    with assms show ?thesis by (simp add: escape_char_def unescape_def)
  next
    case qu
    with assms show ?thesis by (simp add: escape_char_def unescape_def)
  next
    case b
    with assms show ?thesis by (simp add: escape_char_def unescape_def)
  next
    case f
    with assms show ?thesis by (simp add: escape_char_def unescape_def)
  next
    case n
    with assms show ?thesis by (simp add: escape_char_def unescape_def)
  next
    case r
    with assms show ?thesis by (simp add: escape_char_def unescape_def)
  next
    case t
    with assms show ?thesis by (simp add: escape_char_def unescape_def)
  next
    case plain
    then have e: "escape_char c = [c]"
      by (auto simp: escape_char_def)
    from plain assms show ?thesis unfolding e by simp
  next
    case other
    then have e: "escape_char c = [CHR 0x5C, CHR ''u'', CHR ''0'', CHR ''0'',
            hex_digit ((of_char c :: nat) div 16), hex_digit ((of_char c :: nat) mod 16)]"
      by (simp add: escape_char_def)
    show ?thesis unfolding e by (rule scanstring_unicode_escape [OF assms])
  qed
qed

lemma scanstring_escaped:
  "scanstring (concat (map escape_char s) @ CHR 0x22 # rest) = Some (s, rest)"
  by (induction s) (simp_all add: scanstring_escape_char)

lemma scanstring_basestring:
  "\<exists>cs. encode_basestring_ascii s @ rest = CHR 0x22 # cs \<and> scanstring cs = Some (s, rest)"
  by (simp add: encode_basestring_ascii_def scanstring_escaped)

paragraph \<open>Values\<close>

lemma digit_not_special:
  assumes "is_digit c"
  shows "c \<noteq> CHR 0x22" "c \<noteq> CHR ''[''" "c \<noteq> CHR ''{''" "c \<noteq> CHR ''t''" "c \<noteq> CHR ''f''"
    "c \<noteq> CHR ''n''" "\<not> is_ws c" "c \<noteq> CHR '']''" "c \<noteq> CHR ''}''"
  using assms by (auto simp: is_digit_def is_ws_def)

lemma parse_value_string:
  "skip_ws s = CHR 0x22 # cs \<Longrightarrow>
   parse_value float_of (Suc n) s =
     (case scanstring cs of None \<Rightarrow> None | Some (str, r) \<Rightarrow> Some (PyStr str, r))"
  by simp

lemma parse_value_constant:
  assumes "skip_ws s = c # cs" and "c = CHR ''t'' \<or> c = CHR ''f'' \<or> c = CHR ''n''"
  shows "parse_value float_of (Suc n) s = scan_constant (c # cs)"
proof -
  from assms(2) have "c \<noteq> CHR 0x22" "c \<noteq> CHR ''[''" "c \<noteq> CHR ''{''" by auto
  with assms(2) show ?thesis by (simp add: assms(1))
qed

lemma number_start_props:
  assumes "c = CHR ''-'' \<or> is_digit c \<or> c = CHR ''N'' \<or> c = CHR ''I''"
  shows "\<not> is_ws c" "c \<noteq> CHR '']''" "c \<noteq> CHR ''}''" "c \<noteq> CHR 0x22" "c \<noteq> CHR ''[''"
    "c \<noteq> CHR ''{''" "c \<noteq> CHR ''t''" "c \<noteq> CHR ''f''" "c \<noteq> CHR ''n''"
proof -
  from assms consider "c = CHR ''-''" | "is_digit c" | "c = CHR ''N''" | "c = CHR ''I''"
    by blast
  then have "\<not> is_ws c \<and> c \<noteq> CHR '']'' \<and> c \<noteq> CHR ''}'' \<and> c \<noteq> CHR 0x22 \<and> c \<noteq> CHR ''['' \<and>
    c \<noteq> CHR ''{'' \<and> c \<noteq> CHR ''t'' \<and> c \<noteq> CHR ''f'' \<and> c \<noteq> CHR ''n''"
  proof cases
    case 1
    then show ?thesis by (simp add: is_ws_def)
  next
    case 2
    then show ?thesis by (simp add: digit_not_special)
  next
    case 3
    then show ?thesis by (simp add: is_ws_def)
  next
    case 4
    then show ?thesis by (simp add: is_ws_def)
  qed
  then show "\<not> is_ws c" "c \<noteq> CHR '']''" "c \<noteq> CHR ''}''" "c \<noteq> CHR 0x22" "c \<noteq> CHR ''[''"
    "c \<noteq> CHR ''{''" "c \<noteq> CHR ''t''" "c \<noteq> CHR ''f''" "c \<noteq> CHR ''n''"
    by simp_all
qed

lemma parse_value_number:
  assumes "skip_ws s = c # cs"
    and "c = CHR ''-'' \<or> is_digit c \<or> c = CHR ''N'' \<or> c = CHR ''I''"
  shows "parse_value float_of (Suc n) s = scan_number float_of (c # cs)"
  using assms(2) by (simp add: assms(1) number_start_props [OF assms(2)])

lemma parse_value_empty_list:
  "skip_ws s = CHR ''['' # cs \<Longrightarrow> skip_ws cs = CHR '']'' # ds \<Longrightarrow>
   parse_value float_of (Suc n) s = Some (PyList [], ds)"
  by simp

lemma parse_value_list:
  "skip_ws s = CHR ''['' # cs \<Longrightarrow> skip_ws cs = d # ds \<Longrightarrow> d \<noteq> CHR '']'' \<Longrightarrow>
   parse_value float_of (Suc n) s =
     (case parse_elements float_of n cs of None \<Rightarrow> None | Some (xs, r) \<Rightarrow> Some (PyList xs, r))"
  by simp

lemma parse_value_empty_dict:
  "skip_ws s = CHR ''{'' # cs \<Longrightarrow> skip_ws cs = CHR ''}'' # ds \<Longrightarrow>
   parse_value float_of (Suc n) s = Some (PyDict [], ds)"
  by simp

lemma parse_value_dict:
  "skip_ws s = CHR ''{'' # cs \<Longrightarrow> skip_ws cs = d # ds \<Longrightarrow> d \<noteq> CHR ''}'' \<Longrightarrow>
   parse_value float_of (Suc n) s =
     (case parse_members float_of n cs of
        None \<Rightarrow> None
      | Some (kvs, r) \<Rightarrow> Some (PyDict (dict_of_pairs kvs), r))"
  by simp

lemma join_Cons: "xs \<noteq> [] \<Longrightarrow> join sep (x # xs) = x @ sep @ join sep xs"
  by (cases xs) simp_all

lemma dict_of_pairs_distinct:
  assumes "distinct (map fst kvs)"
  shows "dict_of_pairs kvs = kvs"
proof -
  have "distinct (map fst (acc @ kvs)) \<Longrightarrow>
        foldl (\<lambda>d (k, v). dict_set d k v) acc kvs = acc @ kvs" for acc :: "(string \<times> 'a) list"
  proof (induction kvs arbitrary: acc)
    case Nil
    then show ?case by simp
  next
    case (Cons kv kvs)
    obtain k v where kv: "kv = (k, v)" by (cases kv)
    from Cons.prems kv have "k \<notin> fst ` set acc" by auto
    then have step: "dict_set acc k v = acc @ [(k, v)]" by (simp add: dict_set_def)
    from Cons.prems kv have "distinct (map fst ((acc @ [(k, v)]) @ kvs))" by simp
    from Cons.IH [OF this] step kv show ?case by simp
  qed
  from this [of "[]"] assms show ?thesis by (simp add: dict_of_pairs_def)
qed

lemma ends_number_comma: "ends_number (CHR '','' # s)"
  by (simp add: ends_number_def number_char_def is_digit_def)

lemma ends_number_close:
  "list_all is_ws w \<Longrightarrow> ends_number (w @ CHR '']'' # s)" "list_all is_ws w \<Longrightarrow> ends_number (w @ CHR ''}'' # s)"
  by (simp_all add: ends_number_ws number_char_def is_digit_def)

lemma skip_ws_close:
  "list_all is_ws w \<Longrightarrow> skip_ws (w @ CHR '']'' # s) = CHR '']'' # s"
  "list_all is_ws w \<Longrightarrow> skip_ws (w @ CHR ''}'' # s) = CHR ''}'' # s"
  by (simp_all add: skip_ws_append skip_ws_Cons is_ws_def)

lemma parse_elements_encode:
  fixes enc :: "'f pyobj \<Rightarrow> string"
  assumes ne: "xs \<noteq> []"
    and val: "\<And>x w rest fuel. x \<in> set xs \<Longrightarrow> list_all is_ws w \<Longrightarrow> ends_number rest \<Longrightarrow>
        length (enc x) < fuel \<Longrightarrow> parse_value float_of fuel (w @ enc x @ rest) = Some (x, rest)"
    and w1: "list_all is_ws w1" and w0: "list_all is_ws w0"
  shows "Suc (length (w1 @ join (CHR '','' # w1) (map enc xs) @ w0)) < fuel \<Longrightarrow>
         parse_elements float_of fuel (w1 @ join (CHR '','' # w1) (map enc xs) @ w0 @ CHR '']'' # rest)
           = Some (xs, rest)"
  using ne val
proof (induction xs arbitrary: fuel rule: list_nonempty_induct)
  case (single x)
  from single.prems(1) obtain n where fuel: "fuel = Suc n" by (cases fuel) auto
  have len: "length (enc x) < n" using single.prems(1) fuel by simp
  have pv: "parse_value float_of n (w1 @ enc x @ (w0 @ CHR '']'' # rest)) = Some (x, w0 @ CHR '']'' # rest)"
    by (rule single.prems(2)) (simp_all add: w1 w0 ends_number_close len)
  show ?case
    unfolding fuel using pv by (simp add: skip_ws_close [OF w0])
next
  case (cons x xs)
  from cons.prems(1) obtain n where fuel: "fuel = Suc n" by (cases fuel) auto
  let ?tail = "w1 @ join (CHR '','' # w1) (map enc xs) @ w0"
  have j: "join (CHR '','' # w1) (enc x # map enc xs) = enc x @ CHR '','' # w1 @ join (CHR '','' # w1) (map enc xs)"
    using cons.hyps by (simp add: join_Cons)
  have len: "length (enc x) < n" using cons.prems(1) fuel by (simp add: j)
  have len': "Suc (length ?tail) < n" using cons.prems(1) fuel by (simp add: j)
  have pv: "parse_value float_of n (w1 @ enc x @ (CHR '','' # ?tail @ CHR '']'' # rest))
              = Some (x, CHR '','' # ?tail @ CHR '']'' # rest)"
    by (rule cons.prems(2)) (simp_all add: w1 ends_number_comma len)
  have rec: "parse_elements float_of n (?tail @ CHR '']'' # rest) = Some (xs, rest)"
    using cons.IH [OF len'] cons.prems(2) by simp
  show ?case
    unfolding fuel using pv rec by (simp add: j skip_ws_Cons is_ws_def)
qed

lemma parse_members_step:
  assumes "list_all is_ws w1"
    and "parse_value float_of n (CHR '' '' # t) = Some (v, r')"
  shows "parse_members float_of (Suc n) (w1 @ encode_basestring_ascii k @ CHR '':'' # CHR '' '' # t) =
     (case skip_ws r' of
        [] \<Rightarrow> None
      | d # ds \<Rightarrow>
          if d = CHR '','' then
            (case parse_members float_of n ds of
               None \<Rightarrow> None
             | Some (kvs, r'') \<Rightarrow> Some ((k, v) # kvs, r''))
          else if d = CHR ''}'' then Some ([(k, v)], ds)
          else None)"
proof -
  obtain cs where cs: "encode_basestring_ascii k @ CHR '':'' # CHR '' '' # t = CHR 0x22 # cs"
    and sc: "scanstring cs = Some (k, CHR '':'' # CHR '' '' # t)"
    using scanstring_basestring [of k "CHR '':'' # CHR '' '' # t"] by blast
  have sk: "skip_ws (w1 @ encode_basestring_ascii k @ CHR '':'' # CHR '' '' # t) = CHR 0x22 # cs"
    by (simp add: skip_ws_append [OF assms(1)] cs skip_ws_Cons is_ws_def)
  have sk2: "skip_ws (CHR '':'' # CHR '' '' # t) = CHR '':'' # CHR '' '' # t"
    by (simp add: skip_ws_Cons is_ws_def)
  show ?thesis
    by (simp only: parse_members.simps sk list.case sc option.case prod.case sk2 assms(2))
      simp
qed

lemma parse_members_encode:
  fixes enc :: "'f pyobj \<Rightarrow> string"
  assumes ne: "kvs \<noteq> []"
    and val: "\<And>k x w rest fuel. (k, x) \<in> set kvs \<Longrightarrow> list_all is_ws w \<Longrightarrow> ends_number rest \<Longrightarrow>
        length (enc x) < fuel \<Longrightarrow> parse_value float_of fuel (w @ enc x @ rest) = Some (x, rest)"
    and w1: "list_all is_ws w1" and w0: "list_all is_ws w0"
  shows "Suc (length (w1 @ join (CHR '','' # w1)
              (map (\<lambda>(k, v). encode_basestring_ascii k @ CHR '':'' # CHR '' '' # enc v) kvs) @ w0)) < fuel \<Longrightarrow>
         parse_members float_of fuel
           (w1 @ join (CHR '','' # w1)
              (map (\<lambda>(k, v). encode_basestring_ascii k @ CHR '':'' # CHR '' '' # enc v) kvs) @ w0 @ CHR ''}'' # rest)
           = Some (kvs, rest)"
  using ne val
proof (induction kvs arbitrary: fuel rule: list_nonempty_induct)
  case (single kv)
  obtain k v where kv: "kv = (k, v)" by (cases kv)
  from single.prems(1) obtain n where fuel: "fuel = Suc n" by (cases fuel) auto
  have len: "length (enc v) < n" using single.prems(1) fuel kv by simp
  have pv: "parse_value float_of n ([CHR '' ''] @ enc v @ (w0 @ CHR ''}'' # rest))
              = Some (v, w0 @ CHR ''}'' # rest)"
    by (rule single.prems(2) [of k]) (simp_all add: kv w0 ends_number_close len is_ws_def)
  then have pv': "parse_value float_of n (CHR '' '' # enc v @ w0 @ CHR ''}'' # rest)
              = Some (v, w0 @ CHR ''}'' # rest)" by simp
  show ?case
    unfolding fuel kv using parse_members_step [OF w1 pv', of k]
    by (simp add: skip_ws_close [OF w0])
next
  case (cons kv kvs)
  obtain k v where kv: "kv = (k, v)" by (cases kv)
  from cons.prems(1) obtain n where fuel: "fuel = Suc n" by (cases fuel) auto
  let ?m = "\<lambda>(k, v). encode_basestring_ascii k @ CHR '':'' # CHR '' '' # enc v"
  let ?tail = "w1 @ join (CHR '','' # w1) (map ?m kvs) @ w0"
  have len: "length (enc v) < n"
    using cons.prems(1) fuel kv cons.hyps by (simp add: join_Cons)
  have len': "Suc (length ?tail) < n"
    using cons.prems(1) fuel kv cons.hyps by (simp add: join_Cons)
  have pv: "parse_value float_of n ([CHR '' ''] @ enc v @ (CHR '','' # ?tail @ CHR ''}'' # rest))
              = Some (v, CHR '','' # ?tail @ CHR ''}'' # rest)"
    by (rule cons.prems(2) [of k]) (simp_all add: kv ends_number_comma len is_ws_def)
  then have pv': "parse_value float_of n (CHR '' '' # enc v @ CHR '','' # ?tail @ CHR ''}'' # rest)
              = Some (v, CHR '','' # ?tail @ CHR ''}'' # rest)" by simp
  have rec: "parse_members float_of n (?tail @ CHR ''}'' # rest) = Some (kvs, rest)"
  proof -
    have "parse_value float_of fuel' (w @ enc x @ rest') = Some (x, rest')"
      if "(k', x) \<in> set kvs" "list_all is_ws w" "ends_number rest'" "length (enc x) < fuel'"
      for k' x w rest' fuel'
      using cons.prems(2) [of k' x w rest' fuel'] that by simp
    from cons.IH [OF len' this] show ?thesis by simp
  qed
  show ?case
    unfolding fuel kv using parse_members_step [OF w1 pv', of k] rec cons.hyps
    by (simp add: join_Cons skip_ws_Cons is_ws_def)
qed

lemma scan_constant_texts:
  "scan_constant (''true'' @ rest) = Some (PyBool True, rest)"
  "scan_constant (''false'' @ rest) = Some (PyBool False, rest)"
  "scan_constant (''null'' @ rest) = Some (PyNone, rest)"
  by (simp_all add: scan_constant_def)

lemma json_encode_first:
  assumes "json_ok float_of float_repr v"
  shows "\<exists>c cs. json_encode float_repr ind level v = c # cs \<and> \<not> is_ws c \<and>
           c \<noteq> CHR '']'' \<and> c \<noteq> CHR ''}''"
proof (cases v)
  case PyNone
  then show ?thesis by (simp add: is_ws_def)
next
  case (PyInt i)
  obtain c cs where c: "str_int i = c # cs"
    "c = CHR ''-'' \<or> is_digit c \<or> c = CHR ''N'' \<or> c = CHR ''I''"
    using str_int_first [of i] by blast
  have "\<not> is_ws c \<and> c \<noteq> CHR '']'' \<and> c \<noteq> CHR ''}''"
    by (simp add: number_start_props [OF c(2)])
  with c PyInt show ?thesis by simp
next
  case (PyFloat x)
  with assms obtain c cs where c: "float_repr x = c # cs"
    "c = CHR ''-'' \<or> is_digit c \<or> c = CHR ''N'' \<or> c = CHR ''I''"
    by (auto simp: float_text_ok_def split: list.splits)
  have "\<not> is_ws c \<and> c \<noteq> CHR '']'' \<and> c \<noteq> CHR ''}''"
    by (simp add: number_start_props [OF c(2)])
  with c PyFloat show ?thesis by simp
next
  case (PyBool b)
  then show ?thesis by (simp add: is_ws_def)
next
  case (PyStr s)
  then show ?thesis by (simp add: encode_basestring_ascii_def is_ws_def)
next
  case (PyList xs)
  then show ?thesis by (simp add: is_ws_def)
next
  case (PyDict kvs)
  then show ?thesis by (simp add: is_ws_def)
qed

lemma parse_value_encode:
  "json_ok float_of float_repr v \<Longrightarrow> list_all is_ws w \<Longrightarrow> ends_number rest \<Longrightarrow>
   length (json_encode float_repr ind level v) < fuel \<Longrightarrow>
   parse_value float_of fuel (w @ json_encode float_repr ind level v @ rest) = Some (v, rest)"
proof (induction v arbitrary: w rest level fuel)
  case PyNone
  from PyNone.prems(4) obtain n where fuel: "fuel = Suc n" by (cases fuel) auto
  have sk: "skip_ws (w @ ''null'' @ rest) = CHR ''n'' # (''ull'' @ rest)"
    by (simp add: skip_ws_append [OF PyNone.prems(2)] skip_ws_Cons is_ws_def)
  show ?case
    unfolding fuel json_encode.simps
    by (subst parse_value_constant [OF sk]) (use scan_constant_texts(3) [of rest] in simp_all)
next
  case (PyInt i)
  from PyInt.prems(4) obtain n where fuel: "fuel = Suc n" by (cases fuel) auto
  obtain c cs where c: "str_int i = c # cs"
    "c = CHR ''-'' \<or> is_digit c \<or> c = CHR ''N'' \<or> c = CHR ''I''"
    using str_int_first [of i] by blast
  have nws: "\<not> is_ws c" by (rule number_start_props(1) [OF c(2)])
  have sk: "skip_ws (w @ str_int i @ rest) = c # (cs @ rest)"
    by (simp add: skip_ws_append [OF PyInt.prems(2)] c skip_ws_Cons nws)
  have "parse_value float_of (Suc n) (w @ str_int i @ rest) = scan_number float_of (c # (cs @ rest))"
    by (rule parse_value_number [OF sk c(2)])
  also have "\<dots> = scan_number float_of (str_int i @ rest)" by (simp add: c)
  also have "\<dots> = Some (PyInt i, rest)" by (rule scan_number_int [OF PyInt.prems(3)])
  finally show ?case unfolding fuel by simp
next
  case (PyFloat x)
  from PyFloat.prems(4) obtain n where fuel: "fuel = Suc n" by (cases fuel) auto
  from PyFloat.prems(1) have ok: "float_text_ok float_of float_repr x" by simp
  then obtain c cs where c: "float_repr x = c # cs"
    "c = CHR ''-'' \<or> is_digit c \<or> c = CHR ''N'' \<or> c = CHR ''I''"
    by (auto simp: float_text_ok_def split: list.splits)
  have nws: "\<not> is_ws c" by (rule number_start_props(1) [OF c(2)])
  have sk: "skip_ws (w @ float_repr x @ rest) = c # (cs @ rest)"
    by (simp add: skip_ws_append [OF PyFloat.prems(2)] c skip_ws_Cons nws)
  have "parse_value float_of (Suc n) (w @ float_repr x @ rest) = scan_number float_of (c # (cs @ rest))"
    by (rule parse_value_number [OF sk c(2)])
  also have "\<dots> = scan_number float_of (float_repr x @ rest)" by (simp add: c)
  also have "\<dots> = Some (PyFloat x, rest)" by (rule scan_number_float [OF ok PyFloat.prems(3)])
  finally show ?case unfolding fuel by simp
next
  case (PyBool b)
  from PyBool.prems(4) obtain n where fuel: "fuel = Suc n" by (cases fuel) auto
  show ?case
  proof (cases b)
    case True
    have e: "json_encode float_repr ind level (PyBool b) = ''true''" using True by simp
    have sk: "skip_ws (w @ ''true'' @ rest) = CHR ''t'' # (''rue'' @ rest)"
      by (simp add: skip_ws_append [OF PyBool.prems(2)] skip_ws_Cons is_ws_def)
    show ?thesis
      unfolding fuel e
      by (subst parse_value_constant [OF sk]) (use scan_constant_texts(1) [of rest] True in simp_all)
  next
    case False
    have e: "json_encode float_repr ind level (PyBool b) = ''false''" using False by simp
    have sk: "skip_ws (w @ ''false'' @ rest) = CHR ''f'' # (''alse'' @ rest)"
      by (simp add: skip_ws_append [OF PyBool.prems(2)] skip_ws_Cons is_ws_def)
    show ?thesis
      unfolding fuel e
      by (subst parse_value_constant [OF sk]) (use scan_constant_texts(2) [of rest] False in simp_all)
  qed
next
  case (PyStr s)
  from PyStr.prems(4) obtain n where fuel: "fuel = Suc n" by (cases fuel) auto
  obtain cs where cs: "encode_basestring_ascii s @ rest = CHR 0x22 # cs"
    and sc: "scanstring cs = Some (s, rest)"
    using scanstring_basestring [of s rest] by blast
  have sk: "skip_ws (w @ encode_basestring_ascii s @ rest) = CHR 0x22 # cs"
    by (simp add: skip_ws_append [OF PyStr.prems(2)] cs skip_ws_Cons is_ws_def)
  show ?case
    unfolding fuel json_encode.simps
    by (subst parse_value_string [OF sk]) (simp add: sc)
next
  case (PyList xs)
  from PyList.prems(4) obtain n where fuel: "fuel = Suc n" by (cases fuel) auto
  show ?case
  proof (cases "xs = []")
    case True
    have sk: "skip_ws (w @ ''[]'' @ rest) = CHR ''['' # (CHR '']'' # rest)"
      by (simp add: skip_ws_append [OF PyList.prems(2)] skip_ws_Cons is_ws_def)
    have sk2: "skip_ws (CHR '']'' # rest) = CHR '']'' # rest"
      by (simp add: skip_ws_Cons is_ws_def)
    have e: "json_encode float_repr ind level (PyList xs) = ''[]''" using True by simp
    show ?thesis
      unfolding fuel e
      by (subst parse_value_empty_list [OF sk sk2]) (simp add: True)
  next
    case False
    let ?enc = "json_encode float_repr ind (Suc level)"
    let ?w1 = "newline_indent ind (Suc level)"
    let ?w0 = "newline_indent ind level"
    let ?elems = "?w1 @ join (CHR '','' # ?w1) (map ?enc xs) @ ?w0"
    have enc_text: "json_encode float_repr ind level (PyList xs) = CHR ''['' # ?elems @ '']''"
      using False by simp
    have ok: "json_ok float_of float_repr x" if "x \<in> set xs" for x
      using PyList.prems(1) that by (simp add: list_all_iff)
    have val: "parse_value float_of fuel' (w' @ ?enc x @ rest') = Some (x, rest')"
      if "x \<in> set xs" "list_all is_ws w'" "ends_number rest'" "length (?enc x) < fuel'"
      for x w' rest' fuel'
      using PyList.IH [OF that(1) ok [OF that(1)] that(2,3,4)] .
    have len: "Suc (length ?elems) < n"
      using PyList.prems(4) unfolding fuel enc_text by simp
    have elems: "parse_elements float_of n
        (?w1 @ join (CHR '','' # ?w1) (map ?enc xs) @ ?w0 @ CHR '']'' # rest) = Some (xs, rest)"
      using parse_elements_encode [OF False val newline_indent_ws newline_indent_ws len]
      by simp
    obtain x xs' where xs: "xs = x # xs'" using False by (cases xs) auto
    obtain d ds where d: "?enc x = d # ds" "\<not> is_ws d" "d \<noteq> CHR '']''"
      using json_encode_first [OF ok, of x ind "Suc level"] xs by auto
    have sk: "skip_ws (w @ (CHR ''['' # ?elems @ '']'') @ rest) = CHR ''['' # (?elems @ CHR '']'' # rest)"
      by (simp add: skip_ws_append [OF PyList.prems(2)] skip_ws_Cons is_ws_def)
    have "\<exists>t. join (CHR '','' # ?w1) (map ?enc xs) = d # t"
      unfolding xs using d(1) by (cases xs') simp_all
    then obtain t where t: "join (CHR '','' # ?w1) (map ?enc xs) = d # t" by blast
    have sk2: "skip_ws (?elems @ CHR '']'' # rest) = d # (t @ ?w0 @ CHR '']'' # rest)"
      by (simp add: skip_ws_append [OF newline_indent_ws] t skip_ws_Cons d(2))
    show ?thesis
      unfolding fuel enc_text
      by (subst parse_value_list [OF sk sk2 d(3)]) (simp add: elems)
  qed
next
  case (PyDict kvs)
  from PyDict.prems(4) obtain n where fuel: "fuel = Suc n" by (cases fuel) auto
  show ?case
  proof (cases "kvs = []")
    case True
    have sk: "skip_ws (w @ ''{}'' @ rest) = CHR ''{'' # (CHR ''}'' # rest)"
      by (simp add: skip_ws_append [OF PyDict.prems(2)] skip_ws_Cons is_ws_def)
    have sk2: "skip_ws (CHR ''}'' # rest) = CHR ''}'' # rest"
      by (simp add: skip_ws_Cons is_ws_def)
    have e: "json_encode float_repr ind level (PyDict kvs) = ''{}''" using True by simp
    show ?thesis
      unfolding fuel e
      by (subst parse_value_empty_dict [OF sk sk2]) (simp add: True)
  next
    case False
    let ?enc = "json_encode float_repr ind (Suc level)"
    let ?m = "\<lambda>(k, v). encode_basestring_ascii k @ CHR '':'' # CHR '' '' # ?enc v"
    let ?w1 = "newline_indent ind (Suc level)"
    let ?w0 = "newline_indent ind level"
    let ?membs = "?w1 @ join (CHR '','' # ?w1) (map ?m kvs) @ ?w0"
    have enc_text: "json_encode float_repr ind level (PyDict kvs) = CHR ''{'' # ?membs @ ''}''"
      using False by simp
    have dist: "distinct (map fst kvs)" using PyDict.prems(1) by simp
    have ok: "json_ok float_of float_repr x" if "(k, x) \<in> set kvs" for k x
      using PyDict.prems(1) that by (auto simp: list_all_iff)
    have val: "parse_value float_of fuel' (w' @ ?enc x @ rest') = Some (x, rest')"
      if "(k, x) \<in> set kvs" "list_all is_ws w'" "ends_number rest'" "length (?enc x) < fuel'"
      for k x w' rest' fuel'
      using PyDict.IH [OF that(1) _ ok [OF that(1)] that(2,3,4)] by simp
    have len: "Suc (length ?membs) < n"
      using PyDict.prems(4) unfolding fuel enc_text by simp
    have membs: "parse_members float_of n
        (?w1 @ join (CHR '','' # ?w1) (map ?m kvs) @ ?w0 @ CHR ''}'' # rest) = Some (kvs, rest)"
      using parse_members_encode [OF False val newline_indent_ws newline_indent_ws len]
      by simp
    obtain k x kvs' where kvs: "kvs = (k, x) # kvs'" using False by (cases kvs) auto
    have sk: "skip_ws (w @ (CHR ''{'' # ?membs @ ''}'') @ rest) = CHR ''{'' # (?membs @ CHR ''}'' # rest)"
      by (simp add: skip_ws_append [OF PyDict.prems(2)] skip_ws_Cons is_ws_def)
    have "\<exists>t. join (CHR '','' # ?w1) (map ?m kvs) = CHR 0x22 # t"
      unfolding kvs by (cases kvs') (simp_all add: encode_basestring_ascii_def)
    then obtain t where t: "join (CHR '','' # ?w1) (map ?m kvs) = CHR 0x22 # t" by blast
    have sk2: "skip_ws (?membs @ CHR ''}'' # rest) = CHR 0x22 # (t @ ?w0 @ CHR ''}'' # rest)"
      by (simp add: skip_ws_append [OF newline_indent_ws] t skip_ws_Cons is_ws_def)
    show ?thesis
      unfolding fuel enc_text
      by (subst parse_value_dict [OF sk sk2]) (simp_all add: membs dict_of_pairs_distinct [OF dist])
  qed
qed

lemma json_loads_dumps:
  assumes "json_ok float_of float_repr v"
  shows "json_loads float_of (json_dumps float_repr ind v) = Some v"
proof -
  have "parse_value float_of (Suc (length (json_encode float_repr ind 0 v)))
          ([] @ json_encode float_repr ind 0 v @ []) = Some (v, [])"
    by (rule parse_value_encode [OF assms]) (simp_all add: ends_number_def)
  then show ?thesis by (simp add: json_loads_def json_dumps_def skip_ws_def)
qed

lemma join_prefixed:
  "ys \<noteq> [] \<Longrightarrow> p @ join (sep @ p) ys = join sep (map ((@) p) ys)"
proof (induction ys rule: list_nonempty_induct)
  case (single y)
  then show ?case by simp
next
  case (cons y ys)
  then show ?case by (simp add: join_Cons)
qed

lemma json_encode_list_lines:
  "json_encode float_repr 2 level (PyList (x # xs)) =
     ''['' @ join '',''
        (map (\<lambda>y. CHR ''\<newline>'' # replicate (2 * (level + 1)) CHR '' '' @
                  json_encode float_repr 2 (level + 1) y) (x # xs))
     @ CHR ''\<newline>'' # replicate (2 * level) CHR '' '' @ '']''"
proof -
  let ?p = "newline_indent 2 (level + 1)"
  have "?p @ join ('','' @ ?p) (map (json_encode float_repr 2 (level + 1)) (x # xs)) =
        join '','' (map ((@) ?p) (map (json_encode float_repr 2 (level + 1)) (x # xs)))"
    by (rule join_prefixed) simp
  then show ?thesis
    by (simp add: newline_indent_def comp_def del: join.simps)
qed

lemma json_encode_dict_lines:
  "json_encode float_repr 2 level (PyDict (kv # kvs)) =
     ''{'' @ join '',''
        (map (\<lambda>(k, v). CHR ''\<newline>'' # replicate (2 * (level + 1)) CHR '' '' @
                  encode_basestring_ascii k @ '': '' @ json_encode float_repr 2 (level + 1) v)
           (kv # kvs))
     @ CHR ''\<newline>'' # replicate (2 * level) CHR '' '' @ ''}''"
proof -
  let ?p = "newline_indent 2 (level + 1)"
  let ?m = "\<lambda>(k, v). encode_basestring_ascii k @ '': '' @ json_encode float_repr 2 (level + 1) v"
  have "?p @ join ('','' @ ?p) (map ?m (kv # kvs)) = join '','' (map ((@) ?p) (map ?m (kv # kvs)))"
    by (rule join_prefixed) simp
  then show ?thesis
    by (simp add: newline_indent_def comp_def case_prod_unfold del: join.simps)
qed

paragraph \<open>Results of the pipeline\<close>

lemma tolist_number_json_ok:
  assumes "\<And>x. float_text_ok float_of float_repr x"
  shows "list_all (json_ok float_of float_repr) (tolist (IntCol is))"
    "list_all (json_ok float_of float_repr) (tolist (FloatCol xs))"
    "list_all (json_ok float_of float_repr) (tolist (BoolCol bs))"
  using assms by (simp_all add: list_all_iff)

lemma pipeline_result_json_ok:
  assumes rd: "read_csv L file_bytes = Inr df"
    and wf: "wf_frame df"
    and run: "run_clustering_pipeline L file_bytes k_opt = Inr res"
    and floats: "\<And>x. float_text_ok float_of float_repr x"
    and cells: "\<And>s. map_of df ''name'' = Some s \<Longrightarrow> list_all (json_ok float_of float_repr) (tolist s)"
  shows "\<exists>c. dict_get res ''number_of_clusters'' = Inr (PyInt k_opt) \<and>
             dict_get res ''clusters'' = Inr c \<and>
             json_ok float_of float_repr (PyInt k_opt) \<and> json_ok float_of float_repr c"
proof -
  from rd wf run obtain df1 df2 nc labels nm where
    nmc: "''name'' \<in> set (columns df)" and
    enc: "encode_categorical_columns L df = Inr df1" and
    sc: "scale_numeric_columns L df1 = Inr (df2, nc)" and
    wf1: "wf_frame df1" and
    nm: "map_of df2 ''name'' = Some nm" and
    res: "res = [(''number_of_clusters'', PyInt k_opt),
            (''clusters'', PyDict (map (\<lambda>c. (cluster_label c,
                 PyList (map ((!) (tolist nm)) (rows_with_label labels c)))) (sort (remdups labels)))),
            (''raw_clusters'', PyList (to_dict_records (assign df2 ''Cluster'' (IntCol labels))))]"
      and len: "length labels = nrows df" "length (tolist nm) = nrows df"
    by (rule successful_run)
  have okc: "list_all (json_ok float_of float_repr) (tolist nm)"
  proof (cases "''name'' \<in> set nc")
    case True
    from scale_numeric_columns_props(5) [OF sc wf1 True] nm obtain xs where "nm = FloatCol xs"
      by auto
    then show ?thesis using tolist_number_json_ok(2) [OF floats] by simp
  next
    case False
    obtain s where s: "map_of df ''name'' = Some s" using columns_lookup [OF nmc] by blast
    have "''name'' \<notin> set candidate_columns" by (simp add: candidate_columns_def)
    then have "map_of df1 ''name'' = Some s"
      using encode_categorical_columns_props(4) [OF enc] s by simp
    then have "map_of df2 ''name'' = Some s"
      using scale_numeric_columns_props(4) [OF sc wf1 False] by simp
    with nm have "nm = s" by simp
    with cells [OF s] show ?thesis by simp
  qed
  let ?c = "PyDict (map (\<lambda>c. (cluster_label c,
                 PyList (map ((!) (tolist nm)) (rows_with_label labels c)))) (sort (remdups labels)))"
  have mem: "json_ok float_of float_repr (tolist nm ! i)" if "i \<in> set (rows_with_label labels c)" for i c
  proof -
    from that have "i < length (tolist nm)" using len by (simp add: set_rows_with_label)
    then show ?thesis using okc by (simp add: list_all_length)
  qed
  have d: "distinct (map cluster_label (sort (remdups labels)))"
    by (rule distinct_cluster_labels) simp
  have "json_ok float_of float_repr ?c"
    using d mem by (simp add: comp_def list_all_iff)
  then show ?thesis
    by (intro exI [of _ ?c]) (simp add: res dict_get_def)
qed

subsection \<open>Worked examples\<close>

lemmas frame_eval =
  columns_def select_dtypes_number_def getitems_def assign_def setitem_def setitems_def
  series_len_def to_dict_records_def dict_set_def candidate_columns_def
  encode_categorical_columns_def scale_numeric_columns_def cluster_label_def
  sorted_unique_clusters_def persons_in_cluster_def str_int_def str_nat.simps digit_char_def
  recorded_libs_def KMeans_fit_predict_def Let_def

lemma sample_run: "run_clustering_pipeline sample_libs sample_csv 2 = Inr sample_result"
  by (simp add: run_clustering_pipeline_def sample_libs_def sample_frame_def sample_result_def
      frame_eval upt_rec)

lemma sample_wf: "wf_frame sample_frame"
  by (simp add: wf_frame_def sample_frame_def columns_def series_len_def)

lemma sample_read: "read_csv sample_libs sample_csv = Inr sample_frame"
  by (simp add: sample_libs_def recorded_libs_def)

lemma constant_run: "run_clustering_pipeline constant_libs constant_csv 3 = Inr constant_result"
  by (simp add: run_clustering_pipeline_def constant_libs_def constant_frame_def
      constant_result_def frame_eval upt_rec)

lemma constant_wf: "wf_frame constant_frame"
  by (simp add: wf_frame_def constant_frame_def columns_def series_len_def)

lemma constant_read: "read_csv constant_libs constant_csv = Inr constant_frame"
  by (simp add: constant_libs_def recorded_libs_def)

lemma ids_run: "run_clustering_pipeline ids_libs ids_csv 1 = Inr ids_result"
  by (simp add: run_clustering_pipeline_def ids_libs_def ids_frame_def ids_result_def
      frame_eval upt_rec)



lemma ids_encode: "encode_categorical_columns ids_libs ids_frame = Inr ids_frame"
  by (simp add: ids_frame_def frame_eval)


lemma replicate_numeral_unroll: "replicate (numeral k) x = x # replicate (pred_numeral k) x"
  by (simp add: numeral_eq_Suc)

lemmas json_eval =
  json_dumps_def newline_indent_def encode_basestring_ascii_def escape_char_def
  str_int_def str_nat.simps digit_char_def replicate_numeral_unroll

lemma platform_run: "run_clustering_pipeline platform_libs platform_csv 1 = Inr platform_result"
  by (simp add: run_clustering_pipeline_def platform_libs_def platform_frame_def
      platform_result_def frame_eval upt_rec)

section \<open>Claims\<close>

text \<open>
  C1, as claimed: every row's identifier appears in exactly one cluster list.  It fails on
  the table whose \<^verbatim>\<open>name\<close> column holds the numbers 101 and 103: the column is scaled
  like every numeric column, and the cluster list holds the standardized values -1 and 1,
  so neither identifier is in any list.
\<close>

theorem identifiers_replaced_counterexample:
  "map_of ids_frame ''name'' = Some (IntCol [101, 103]) \<and>
   run_clustering_pipeline ids_libs ids_csv 1 = Inr ids_result \<and>
   dict_get ids_result ''clusters'' =
     Inr (PyDict [(''Cluster 0'', PyList [PyFloat (- 1), PyFloat 1])]) \<and>
   PyInt 101 \<notin> set [PyFloat (- 1), PyFloat 1 :: real pyobj] \<and>
   PyInt 103 \<notin> set [PyFloat (- 1), PyFloat 1 :: real pyobj]"
  using ids_run by (simp add: ids_frame_def ids_result_def dict_get_def)

text \<open>
  C1, amended.  On a run that succeeds, the \<^verbatim>\<open>clusters\<close> mapping is a total partition of
  the rows.  With \<open>labels\<close> the label of each row and \<open>names\<close> the value that stands for
  each row (the \<^verbatim>\<open>name\<close> field of the row's record: the identifier of the input when
  the \<^verbatim>\<open>name\<close> column is not numeric, its transformed value otherwise), the mapping has
  one entry per label in use, under pairwise different keys; the entry of label \<open>c\<close>
  lists the values of the rows with label \<open>c\<close> in increasing row position; every row is
  in exactly one entry; and the lengths of the lists add up to the number of rows.
\<close>

theorem clusters_partition_rows:
  assumes rd: "read_csv L file_bytes = Inr df"
    and wf: "wf_frame df"
    and run: "run_clustering_pipeline L file_bytes k_opt = Inr res"
  shows "\<exists>labels names records.
      length labels = nrows df \<and> length names = nrows df \<and>
      (\<forall>s. map_of df ''name'' = Some s \<and> \<not> is_number s \<longrightarrow> names = tolist s) \<and>
      dict_get res ''raw_clusters'' = Inr (PyList records) \<and> length records = nrows df \<and>
      (\<forall>i<nrows df. \<exists>r. records ! i = PyDict r \<and> map_of r ''name'' = Some (names ! i)) \<and>
      dict_get res ''clusters'' =
        Inr (PyDict (map (\<lambda>c. (cluster_label c, PyList (map ((!) names) (rows_with_label labels c))))
                      (sort (remdups labels)))) \<and>
      distinct (map cluster_label (sort (remdups labels))) \<and>
      (\<Sum>c\<leftarrow>sort (remdups labels). length (map ((!) names) (rows_with_label labels c))) = nrows df \<and>
      (\<forall>i<nrows df. \<exists>!c. c \<in> set (sort (remdups labels)) \<and> i \<in> set (rows_with_label labels c)) \<and>
      (\<forall>c. sorted_wrt (<) (rows_with_label labels c))"
proof -
  from run obtain df0 df1 df2 nc labels where
    rd0: "read_csv L file_bytes = Inr df0" and
    nm: "''name'' \<in> set (columns df0)" and
    enc: "encode_categorical_columns L df0 = Inr df1" and
    sc: "scale_numeric_columns L df1 = Inr (df2, nc)" and
    len: "length labels = nrows df2" and
    res: "res = [(''number_of_clusters'', PyInt k_opt),
            (''clusters'', PyDict (summary_loop (assign df2 ''Cluster'' (IntCol labels))
                 (sorted_unique_clusters (assign df2 ''Cluster'' (IntCol labels))) [])),
            (''raw_clusters'', PyList (to_dict_records (assign df2 ''Cluster'' (IntCol labels))))]"
    by (rule run_clustering_pipeline_InrE)
  from rd rd0 have [simp]: "df0 = df" by simp
  note e = encode_categorical_columns_props [OF enc]
  have wf1: "wf_frame df1" using e(3) wf by simp
  note s = scale_numeric_columns_props [OF sc wf1]
  have n2: "nrows df2 = nrows df" using s(1) e(1) by simp
  have "''name'' \<in> set (columns df2)" using nm s(2) e(2) by simp
  then obtain nm2 where nm2: "map_of df2 ''name'' = Some nm2" using columns_lookup by blast
  let ?names = "tolist nm2"
  let ?df3 = "assign df2 ''Cluster'' (IntCol labels)"
  have lnames: "length ?names = nrows df"
    using wf_frame_lookup [OF s(3) nm2] n2 by (simp add: series_len_def)
  have ll: "length labels = length ?names" using len n2 lnames by simp
  have n3: "nrows ?df3 = nrows df"
    using nrows_assign [of "IntCol labels" df2 "''Cluster''"] len n2 by (simp add: series_len_def)
  have c1: "length labels = nrows df" using len n2 by simp
  have c3: "\<forall>s. map_of df ''name'' = Some s \<and> \<not> is_number s \<longrightarrow> ?names = tolist s"
  proof (intro allI impI)
    fix s0 assume a: "map_of df ''name'' = Some s0 \<and> \<not> is_number s0"
    have "''name'' \<notin> set candidate_columns" by (simp add: candidate_columns_def)
    then have m1: "map_of df1 ''name'' = Some s0" using e(4) a by simp
    have "''name'' \<notin> set nc"
    proof
      assume "''name'' \<in> set nc"
      then have "''name'' \<in> set (columns (select_dtypes_number df1))"
        using scale_numeric_columns_Inr(1) [OF sc] by simp
      then have "\<exists>s. map_of df1 ''name'' = Some s \<and> is_number s"
        using wf1 by (simp add: columns_select_dtypes_number wf_frame_def)
      with m1 a show False by simp
    qed
    then have "map_of df2 ''name'' = Some s0" using s(4) m1 by simp
    with nm2 show "?names = tolist s0" by simp
  qed
  have c4: "dict_get res ''raw_clusters'' = Inr (PyList (to_dict_records ?df3))"
    by (simp add: res dict_get_def)
  have c5: "length (to_dict_records ?df3) = nrows df"
    using n3 by (simp add: to_dict_records_def)
  have c6: "\<forall>i<nrows df. \<exists>r. to_dict_records ?df3 ! i = PyDict r \<and> map_of r ''name'' = Some (?names ! i)"
  proof (intro allI impI)
    fix i assume "i < nrows df"
    then have "to_dict_records ?df3 ! i = PyDict (map (\<lambda>(c, s). (c, tolist s ! i)) ?df3)"
      using n3 by (simp add: to_dict_records_nth)
    moreover have "map_of (map (\<lambda>(c, s). (c, tolist s ! i)) ?df3) ''name'' = Some (?names ! i)"
      by (simp add: map_of_record map_of_assign nm2)
    ultimately show "\<exists>r. to_dict_records ?df3 ! i = PyDict r \<and> map_of r ''name'' = Some (?names ! i)"
      by blast
  qed
  have c7: "dict_get res ''clusters'' =
        Inr (PyDict (map (\<lambda>c. (cluster_label c, PyList (map ((!) ?names) (rows_with_label labels c))))
                      (sort (remdups labels))))"
    by (simp add: res dict_get_def summary_loop_assign [OF nm2 ll])
  have c8: "distinct (map cluster_label (sort (remdups labels)))"
    by (rule distinct_cluster_labels) simp
  have c9: "(\<Sum>c\<leftarrow>sort (remdups labels). length (map ((!) ?names) (rows_with_label labels c))) = nrows df"
    using sum_rows_with_label [of labels] c1 by simp
  have c10: "\<forall>i<nrows df. \<exists>!c. c \<in> set (sort (remdups labels)) \<and> i \<in> set (rows_with_label labels c)"
    using rows_with_label_unique c1 by simp
  have c11: "\<forall>c. sorted_wrt (<) (rows_with_label labels c)"
    by (simp add: sorted_rows_with_label)
  from c1 lnames c3 c4 c5 c6 c7 c8 c9 c10 c11 show ?thesis by blast
qed

theorem clusters_partition_rows_witness:
  "read_csv sample_libs sample_csv = Inr sample_frame \<and> wf_frame sample_frame \<and>
   run_clustering_pipeline sample_libs sample_csv 2 = Inr sample_result \<and>
   (\<exists>labels names.
      length labels = nrows sample_frame \<and>
      dict_get sample_result ''clusters'' =
        Inr (PyDict (map (\<lambda>c. (cluster_label c, PyList (map ((!) names) (rows_with_label labels c))))
                      (sort (remdups labels)))) \<and>
      (\<Sum>c\<leftarrow>sort (remdups labels). length (map ((!) names) (rows_with_label labels c))) =
        nrows sample_frame)"
proof -
  have h1: "read_csv sample_libs sample_csv = Inr sample_frame"
    by (simp add: sample_libs_def recorded_libs_def)
  from clusters_partition_rows [OF h1 sample_wf sample_run] h1 sample_wf sample_run
  show ?thesis by blast
qed

text \<open>
  C2, as claimed: the \<^verbatim>\<open>clusters\<close> mapping always has \<open>k\<close> entries, an unused label
  mapping to an empty list.  It fails on the constant table: three clusters are requested,
  all rows get label 0, and the loop over the labels that occur writes the single entry
  \<^verbatim>\<open>Cluster 0\<close>.
\<close>

theorem clusters_fewer_than_k_counterexample:
  "run_clustering_pipeline constant_libs constant_csv 3 = Inr constant_result \<and>
   dict_get constant_result ''number_of_clusters'' = Inr (PyInt 3) \<and>
   dict_get constant_result ''clusters'' =
     Inr (PyDict [(''Cluster 0'', PyList [PyStr ''Alice'', PyStr ''Bob'', PyStr ''Carol''])])"
  using constant_run by (simp add: constant_result_def dict_get_def)

text \<open>
  C2, amended.  On a run that succeeds, the \<^verbatim>\<open>clusters\<close> mapping has exactly one entry
  \<^verbatim>\<open>Cluster i\<close> for every label \<open>i\<close> that k-means gave to at least one row, in ascending
  order of \<open>i\<close>; a label without rows has no entry, no entry is an empty list, and the
  number of entries is the number of distinct labels in use (so it is \<open>k\<close> only when all
  \<open>k\<close> labels are in use).
\<close>

theorem clusters_entries_are_labels_in_use:
  assumes rd: "read_csv L file_bytes = Inr df"
    and wf: "wf_frame df"
    and run: "run_clustering_pipeline L file_bytes k_opt = Inr res"
  shows "\<exists>X labels cs.
      KMeans_fit_predict L k_opt (Some 42) 10 X = Inr labels \<and>
      dict_get res ''clusters'' = Inr (PyDict cs) \<and>
      map fst cs = map cluster_label (sort (remdups labels)) \<and>
      (\<forall>c. cluster_label c \<in> set (map fst cs) \<longleftrightarrow> c \<in> set labels) \<and>
      PyList [] \<notin> set (map snd cs) \<and>
      length cs = card (set labels)"
proof -
  from rd wf run obtain df2 labels nm where
    km: "KMeans_fit_predict L k_opt (Some 42) 10 (select_dtypes_number df2) = Inr labels" and
    res: "res = [(''number_of_clusters'', PyInt k_opt),
            (''clusters'', PyDict (map (\<lambda>c. (cluster_label c,
                 PyList (map ((!) (tolist nm)) (rows_with_label labels c)))) (sort (remdups labels)))),
            (''raw_clusters'', PyList (to_dict_records (assign df2 ''Cluster'' (IntCol labels))))]"
    by (rule successful_run)
  let ?cs = "map (\<lambda>c. (cluster_label c, PyList (map ((!) (tolist nm)) (rows_with_label labels c))))
               (sort (remdups labels))"
  have 1: "dict_get res ''clusters'' = Inr (PyDict ?cs)" by (simp add: res dict_get_def)
  have 2: "map fst ?cs = map cluster_label (sort (remdups labels))" by (simp add: comp_def)
  have 3: "\<forall>c. cluster_label c \<in> set (map fst ?cs) \<longleftrightarrow> c \<in> set labels"
    unfolding 2 by (auto dest: cluster_label_inj)
  have 4: "PyList [] \<notin> set (map snd ?cs)"
    by (auto simp: comp_def rows_with_label_nonempty)
  have 5: "length ?cs = card (set labels)"
    by (simp add: length_remdups_card_conv)
  from km 1 2 3 4 5 show ?thesis by blast
qed

theorem clusters_entries_are_labels_in_use_witness:
  "read_csv constant_libs constant_csv = Inr constant_frame \<and> wf_frame constant_frame \<and>
   run_clustering_pipeline constant_libs constant_csv 3 = Inr constant_result \<and>
   (\<exists>X labels cs.
      KMeans_fit_predict constant_libs 3 (Some 42) 10 X = Inr labels \<and>
      dict_get constant_result ''clusters'' = Inr (PyDict cs) \<and>
      map fst cs = map cluster_label (sort (remdups labels)) \<and>
      (\<forall>c. cluster_label c \<in> set (map fst cs) \<longleftrightarrow> c \<in> set labels) \<and>
      PyList [] \<notin> set (map snd cs) \<and>
      length cs = card (set labels))"
  by (intro conjI)
    (rule constant_read constant_wf constant_run
       clusters_entries_are_labels_in_use [OF constant_read constant_wf constant_run])+

text \<open>
  C3.  The pipeline is deterministic.  The pipeline itself is a function of the file and
  of \<open>k\<close>; the only randomized step is k-means, which it always calls with the fixed
  seed \<^verbatim>\<open>random_state=42\<close> (and \<^verbatim>\<open>n_init=10\<close>).  So two runs of the libraries that
  agree on parsing, encoding, scaling and on every seeded k-means call (they may differ on
  unseeded calls) give the same result, the \<^verbatim>\<open>clusters\<close> mapping included, on the same
  bytes and the same \<open>k\<close>.
\<close>

theorem pipeline_deterministic:
  assumes "read_csv L1 = read_csv L2"
    and "LabelEncoder_fit_transform L1 = LabelEncoder_fit_transform L2"
    and "StandardScaler_fit_transform L1 = StandardScaler_fit_transform L2"
    and "\<And>k s n X. KMeans_fit_predict L1 k (Some s) n X = KMeans_fit_predict L2 k (Some s) n X"
  shows "run_clustering_pipeline L1 file_bytes k_opt = run_clustering_pipeline L2 file_bytes k_opt"
proof -
  have e: "encode_categorical_columns L1 = encode_categorical_columns L2"
    by (intro ext) (simp add: encode_categorical_columns_def Let_def encode_loop_cong [OF assms(2)])
  have s: "scale_numeric_columns L1 = scale_numeric_columns L2"
    by (intro ext) (simp add: scale_numeric_columns_def Let_def assms(3))
  show ?thesis
    unfolding run_clustering_pipeline_def e s assms(1) assms(4) by (rule refl)
qed

theorem pipeline_deterministic_witness:
  "read_csv sample_libs = read_csv sample_libs_other_run \<and>
   LabelEncoder_fit_transform sample_libs = LabelEncoder_fit_transform sample_libs_other_run \<and>
   StandardScaler_fit_transform sample_libs = StandardScaler_fit_transform sample_libs_other_run \<and>
   (\<forall>k s n X. KMeans_fit_predict sample_libs k (Some s) n X =
                KMeans_fit_predict sample_libs_other_run k (Some s) n X) \<and>
   KMeans_fit_predict sample_libs 2 None 10 sample_frame \<noteq>
     KMeans_fit_predict sample_libs_other_run 2 None 10 sample_frame \<and>
   run_clustering_pipeline sample_libs sample_csv 2 =
     run_clustering_pipeline sample_libs_other_run sample_csv 2"
proof -
  have h1: "read_csv sample_libs = read_csv sample_libs_other_run"
    by (simp add: sample_libs_other_run_def)
  have h2: "LabelEncoder_fit_transform sample_libs = LabelEncoder_fit_transform sample_libs_other_run"
    by (simp add: sample_libs_other_run_def)
  have h3: "StandardScaler_fit_transform sample_libs = StandardScaler_fit_transform sample_libs_other_run"
    by (simp add: sample_libs_other_run_def)
  have h4: "KMeans_fit_predict sample_libs k (Some s) n X =
            KMeans_fit_predict sample_libs_other_run k (Some s) n X" for k s n X
    by (simp add: sample_libs_other_run_def KMeans_fit_predict_def)
  have h5: "KMeans_fit_predict sample_libs 2 None 10 sample_frame \<noteq>
     KMeans_fit_predict sample_libs_other_run 2 None 10 sample_frame"
    by (simp add: sample_libs_other_run_def sample_libs_def recorded_libs_def sample_frame_def
        series_len_def KMeans_fit_predict_def)
  from h4 have h4': "\<forall>k s n X. KMeans_fit_predict sample_libs k (Some s) n X =
                KMeans_fit_predict sample_libs_other_run k (Some s) n X" by blast
  show ?thesis
    by (intro conjI)
      (rule h1 h2 h3 h4' h5 pipeline_deterministic [OF h1 h2 h3 h4])+
qed

text \<open>
  C4.  A table that has no column named exactly \<^verbatim>\<open>name\<close> is rejected, whatever
  its other columns are: the run ends in the schema failure of the first check, the
  \<^verbatim>\<open>ValueError\<close> with the message about the missing identifier column (the only
  exception class the pipeline raises itself), and returns no result.
\<close>

theorem missing_name_column_rejected:
  assumes "read_csv L file_bytes = Inr df" and "''name'' \<notin> set (columns df)"
  shows "run_clustering_pipeline L file_bytes k_opt =
           Inl (ValueError ''Dataset must contain a 'name' column for person identification.'')"
  using assms by (simp add: run_clustering_pipeline_def missing_name_def)

theorem missing_name_column_rejected_witness:
  "read_csv libs_without_name without_name_csv = Inr frame_without_name \<and>
   ''name'' \<notin> set (columns frame_without_name) \<and>
   run_clustering_pipeline libs_without_name without_name_csv 3 =
     Inl (ValueError ''Dataset must contain a 'name' column for person identification.'')"
proof -
  have h1: "read_csv libs_without_name without_name_csv = Inr frame_without_name"
    by (simp add: libs_without_name_def recorded_libs_def)
  have h2: "''name'' \<notin> set (columns frame_without_name)"
    by (simp add: frame_without_name_def columns_def)
  from missing_name_column_rejected [OF h1 h2, of 3] h1 h2 show ?thesis by simp
qed

text \<open>
  C5, as claimed: a table that has no numeric column once the identifier column and the
  recognized categorical columns are set aside is rejected.  It fails in both ways.  The
  table with a textual \<^verbatim>\<open>name\<close> and the categorical column
  \<^verbatim>\<open>gaming_platform_top1\<close> has no numeric column at all, yet its encoded column is
  selected as numeric and the run succeeds.  The table whose only column is a numeric
  \<^verbatim>\<open>name\<close> has no numeric column besides the identifier, yet the identifier itself is
  selected and the run succeeds.
\<close>

theorem numeric_name_counterexample:
  "select_dtypes_number platform_frame = [] \<and>
   run_clustering_pipeline platform_libs platform_csv 1 = Inr platform_result \<and>
   encode_categorical_columns ids_libs ids_frame = Inr ids_frame \<and>
   filter (\<lambda>c. c \<noteq> ''name'') (columns (select_dtypes_number ids_frame)) = [] \<and>
   run_clustering_pipeline ids_libs ids_csv 1 = Inr ids_result"
  using ids_encode ids_run platform_run
  by (simp add: ids_frame_def platform_frame_def columns_def select_dtypes_number_def)

text \<open>
  C5, amended.  What the second check counts is every column of numeric dtype after the
  encoding: the \<^verbatim>\<open>name\<close> column when its values are numbers, and every recognized
  categorical column, which the encoder turns into integer codes.  So a table is rejected
  for lack of numeric columns when none of its columns is numeric, the \<^verbatim>\<open>name\<close>
  column included, and none is a recognized categorical column: the run ends in the
  \<^verbatim>\<open>ValueError\<close> asking for at least one numeric column (or, when the table has no
  \<^verbatim>\<open>name\<close> column either, in the one of the first check) and returns no result.
\<close>

theorem no_numeric_column_rejected:
  assumes "read_csv L file_bytes = Inr df"
    and "select_dtypes_number df = []"
    and "set candidate_columns \<inter> set (columns df) = {}"
  shows "run_clustering_pipeline L file_bytes k_opt =
           Inl (ValueError (if ''name'' \<in> set (columns df)
                  then ''Dataset must contain at least one numeric column for clustering.''
                  else ''Dataset must contain a 'name' column for person identification.''))"
proof -
  have "filter (\<lambda>col. col \<in> set (columns df)) candidate_columns = []"
    using assms(3) by (auto simp: filter_empty_conv)
  then have "encode_categorical_columns L df = Inr df"
    by (simp add: encode_categorical_columns_def)
  with assms(1,2) show ?thesis
    by (simp add: run_clustering_pipeline_def scale_numeric_columns_def columns_def no_numeric_def
        missing_name_def)
qed

theorem no_numeric_column_rejected_witness:
  "read_csv text_libs text_csv = Inr text_frame \<and>
   select_dtypes_number text_frame = [] \<and>
   set candidate_columns \<inter> set (columns text_frame) = {} \<and>
   run_clustering_pipeline text_libs text_csv 3 =
     Inl (ValueError ''Dataset must contain at least one numeric column for clustering.'')"
proof -
  have h1: "read_csv text_libs text_csv = Inr text_frame"
    by (simp add: text_libs_def recorded_libs_def)
  have h2: "''name'' \<in> set (columns text_frame)"
    by (simp add: text_frame_def columns_def)
  have h3: "set candidate_columns \<inter> set (columns text_frame) = {}"
    by (simp add: text_frame_def columns_def candidate_columns_def)
  have h4: "select_dtypes_number text_frame = []"
    by (simp add: text_frame_def select_dtypes_number_def)
  from no_numeric_column_rejected [OF h1 h4 h3, of 3] h1 h2 h3 h4 show ?thesis by simp
qed

text \<open>
  C6.  A table with fewer rows than the requested number of clusters \<open>k\<close> produces no
  result.  The stages before the clustering keep the number of rows, so when the table
  passes them (it has a \<^verbatim>\<open>name\<close> column, encoding and scaling succeed, some column is
  numeric) the feature matrix has fewer rows than \<open>k\<close> and the run fails with the
  clustering error of the cluster engine (in scikit-learn a \<^verbatim>\<open>ValueError\<close>: no more
  clusters than data points); a table that does not pass them has already failed there.
\<close>

theorem too_few_rows_rejected:
  assumes rd: "read_csv L file_bytes = Inr df"
    and wf: "wf_frame df"
    and few: "int (nrows df) < k_opt"
  shows "(\<exists>e. run_clustering_pipeline L file_bytes k_opt = Inl e) \<and>
         (\<forall>df1 df2 nc.
            ''name'' \<in> set (columns df) \<and> encode_categorical_columns L df = Inr df1 \<and>
            scale_numeric_columns L df1 = Inr (df2, nc) \<and> nc \<noteq> [] \<longrightarrow>
            run_clustering_pipeline L file_bytes k_opt = Inl (n_samples_error (nrows df) k_opt))"
proof (intro conjI allI impI)
  show "\<exists>e. run_clustering_pipeline L file_bytes k_opt = Inl e"
  proof (cases "run_clustering_pipeline L file_bytes k_opt")
    case (Inl e)
    then show ?thesis by blast
  next
    case (Inr res)
    from rd wf Inr obtain df1 df2 nc labels where
      enc: "encode_categorical_columns L df = Inr df1" and
      sc: "scale_numeric_columns L df1 = Inr (df2, nc)" and
      nc: "nc \<noteq> []" and
      km: "KMeans_fit_predict L k_opt (Some 42) 10 (select_dtypes_number df2) = Inr labels"
      by (rule successful_run)
    have "int (nrows (select_dtypes_number df2)) < k_opt"
      using feature_matrix_rows(1) [OF wf enc sc nc] few by simp
    with km show ?thesis by (simp add: KMeans_fit_predict_def)
  qed
next
  fix df1 df2 nc
  assume a: "''name'' \<in> set (columns df) \<and> encode_categorical_columns L df = Inr df1 \<and>
            scale_numeric_columns L df1 = Inr (df2, nc) \<and> nc \<noteq> []"
  then have nm: "''name'' \<in> set (columns df)" and enc: "encode_categorical_columns L df = Inr df1"
    and sc: "scale_numeric_columns L df1 = Inr (df2, nc)" and nc: "nc \<noteq> []" by simp_all
  have n: "nrows (select_dtypes_number df2) = nrows df"
    by (rule feature_matrix_rows(1) [OF wf enc sc nc])
  then have "KMeans_fit_predict L k_opt (Some 42) 10 (select_dtypes_number df2) =
               Inl (n_samples_error (nrows df) k_opt)"
    using few by (simp add: KMeans_fit_predict_def)
  then show "run_clustering_pipeline L file_bytes k_opt = Inl (n_samples_error (nrows df) k_opt)"
    by (simp add: run_reaches_clustering [OF rd nm enc sc nc])
qed

theorem too_few_rows_rejected_witness:
  "read_csv single_libs single_csv = Inr single_frame \<and> wf_frame single_frame \<and>
   int (nrows single_frame) < 3 \<and>
   ''name'' \<in> set (columns single_frame) \<and>
   encode_categorical_columns single_libs single_frame = Inr single_frame \<and>
   scale_numeric_columns single_libs single_frame =
     Inr ([(''name'', ObjectCol [PyStr ''Alice'']), (''age'', FloatCol [0])], [''age'']) \<and>
   (\<exists>e. run_clustering_pipeline single_libs single_csv 3 = Inl e) \<and>
   run_clustering_pipeline single_libs single_csv 3 =
     Inl (ValueError ''n_samples=1 should be >= n_clusters=3.'')"
proof -
  have h1: "read_csv single_libs single_csv = Inr single_frame"
    by (simp add: single_libs_def recorded_libs_def)
  have h2: "wf_frame single_frame"
    by (simp add: wf_frame_def single_frame_def columns_def series_len_def)
  have h3: "int (nrows single_frame) < 3"
    by (simp add: single_frame_def series_len_def)
  have h6: "''name'' \<in> set (columns single_frame)"
    by (simp add: single_frame_def columns_def)
  have h7: "encode_categorical_columns single_libs single_frame = Inr single_frame"
    by (simp add: single_frame_def frame_eval)
  have h8: "scale_numeric_columns single_libs single_frame =
     Inr ([(''name'', ObjectCol [PyStr ''Alice'']), (''age'', FloatCol [0])], [''age''])"
    by (simp add: single_libs_def single_frame_def frame_eval upt_rec)
  have msg: "n_samples_error (nrows single_frame) 3 =
     ValueError ''n_samples=1 should be >= n_clusters=3.''"
    by (simp add: n_samples_error_def single_frame_def frame_eval)
  note t = too_few_rows_rejected [OF h1 h2 h3]
  from t have t1: "\<exists>e. run_clustering_pipeline single_libs single_csv 3 = Inl e"
    by (rule conjunct1)
  from t h6 h7 h8 have "run_clustering_pipeline single_libs single_csv 3 =
     Inl (n_samples_error (nrows single_frame) 3)"
    by simp
  then have t2: "run_clustering_pipeline single_libs single_csv 3 =
     Inl (ValueError ''n_samples=1 should be >= n_clusters=3.'')"
    by (simp only: msg)
  show ?thesis
    by (intro conjI) (rule h1 h2 h3 h6 h7 h8 t1 t2)+
qed

text \<open>
  C7.  For every result dictionary that has the entries \<^verbatim>\<open>number_of_clusters\<close> and
  \<^verbatim>\<open>clusters\<close>, with values whose text parses back, the export is a text that
  \<^verbatim>\<open>json.loads\<close> parses to the object with exactly these two members and their values,
  whatever else the dictionary holds.  It is printed with an indentation of two spaces:
  the two members stand on lines of their own behind two spaces, and at every nesting
  level each item of a list and each member of an object stands on a line of its own
  behind two spaces per level, the closing bracket on its own line one level less deep.
  The results of the pipeline are such dictionaries when the text of every float parses
  back and the cells of the \<^verbatim>\<open>name\<close> column do (\<open>pipeline_result_json_ok\<close>).
\<close>

theorem export_parses_to_two_keys:
  assumes n: \<open>dict_get clustering_result ''number_of_clusters'' = Inr n\<close>
    and c: \<open>dict_get clustering_result ''clusters'' = Inr c\<close>
    and okn: \<open>json_ok float_of float_repr n\<close>
    and okc: \<open>json_ok float_of float_repr c\<close>
  shows \<open>\<exists>text.
      serialize_clusters_to_json float_repr clustering_result = Inr text \<and>
      json_loads float_of text = Some (PyDict [(''number_of_clusters'', n), (''clusters'', c)]) \<and>
      text = ''{\<newline>  "number_of_clusters": '' @ json_encode float_repr 2 1 n @
             '',\<newline>  "clusters": '' @ json_encode float_repr 2 1 c @ ''\<newline>}'' \<and>
      (\<forall>level x xs. json_encode float_repr 2 level (PyList (x # xs)) =
         ''['' @ join '',''
            (map (\<lambda>y. CHR ''\<newline>'' # replicate (2 * (level + 1)) CHR '' '' @
                      json_encode float_repr 2 (level + 1) y) (x # xs))
         @ CHR ''\<newline>'' # replicate (2 * level) CHR '' '' @ '']'') \<and>
      (\<forall>level kv kvs. json_encode float_repr 2 level (PyDict (kv # kvs)) =
         ''{'' @ join '',''
            (map (\<lambda>(k, v). CHR ''\<newline>'' # replicate (2 * (level + 1)) CHR '' '' @
                      encode_basestring_ascii k @ '': '' @ json_encode float_repr 2 (level + 1) v)
               (kv # kvs))
         @ CHR ''\<newline>'' # replicate (2 * level) CHR '' '' @ ''}'')\<close>
proof -
  let ?payload = \<open>PyDict [(''number_of_clusters'', n), (''clusters'', c)]\<close>
  let ?text = \<open>json_dumps float_repr 2 ?payload\<close>
  have ok: \<open>json_ok float_of float_repr ?payload\<close> using okn okc by simp
  have 1: \<open>serialize_clusters_to_json float_repr clustering_result = Inr ?text\<close>
    using n c by (simp add: serialize_clusters_to_json_def)
  have 2: \<open>json_loads float_of ?text = Some ?payload\<close>
    by (rule json_loads_dumps [OF ok])
  have 3: \<open>?text = ''{\<newline>  "number_of_clusters": '' @ json_encode float_repr 2 1 n @
             '',\<newline>  "clusters": '' @ json_encode float_repr 2 1 c @ ''\<newline>}''\<close>
    by (simp add: json_dumps_def newline_indent_def encode_basestring_ascii_def escape_char_def
        numeral_2_eq_2)
  have 4: \<open>\<forall>level x xs. json_encode float_repr 2 level (PyList (x # xs)) =
         ''['' @ join '',''
            (map (\<lambda>y. CHR ''\<newline>'' # replicate (2 * (level + 1)) CHR '' '' @
                      json_encode float_repr 2 (level + 1) y) (x # xs))
         @ CHR ''\<newline>'' # replicate (2 * level) CHR '' '' @ '']''\<close>
    using json_encode_list_lines by blast
  have 5: \<open>\<forall>level kv kvs. json_encode float_repr 2 level (PyDict (kv # kvs)) =
         ''{'' @ join '',''
            (map (\<lambda>(k, v). CHR ''\<newline>'' # replicate (2 * (level + 1)) CHR '' '' @
                      encode_basestring_ascii k @ '': '' @ json_encode float_repr 2 (level + 1) v)
               (kv # kvs))
         @ CHR ''\<newline>'' # replicate (2 * level) CHR '' '' @ ''}''\<close>
    using json_encode_dict_lines by blast
  show ?thesis
    by (rule exI [of _ ?text]) (intro conjI; (rule 1 2 3 4 5))
qed

theorem export_parses_to_two_keys_witness:
  \<open>dict_get sample_result ''number_of_clusters'' = Inr (PyInt 2) \<and>
   dict_get sample_result ''clusters'' =
     Inr (PyDict [(''Cluster 0'', PyList [PyStr ''Alice'', PyStr ''Carol'']),
                  (''Cluster 1'', PyList [PyStr ''Bob'', PyStr ''Dan''])]) \<and>
   json_ok sample_float_of sample_float_repr (PyInt 2) \<and>
   json_ok sample_float_of sample_float_repr
     (PyDict [(''Cluster 0'', PyList [PyStr ''Alice'', PyStr ''Carol'']),
              (''Cluster 1'', PyList [PyStr ''Bob'', PyStr ''Dan''])]) \<and>
   serialize_clusters_to_json sample_float_repr sample_result =
     Inr (''{\<newline>  "number_of_clusters": 2,\<newline>  "clusters": {\<newline>'' @
          ''    "Cluster 0": [\<newline>      "Alice",\<newline>      "Carol"\<newline>    ],\<newline>'' @
          ''    "Cluster 1": [\<newline>      "Bob",\<newline>      "Dan"\<newline>    ]\<newline>  }\<newline>}'') \<and>
   json_loads sample_float_of
        (''{\<newline>  "number_of_clusters": 2,\<newline>  "clusters": {\<newline>'' @
          ''    "Cluster 0": [\<newline>      "Alice",\<newline>      "Carol"\<newline>    ],\<newline>'' @
          ''    "Cluster 1": [\<newline>      "Bob",\<newline>      "Dan"\<newline>    ]\<newline>  }\<newline>}'') =
     Some (PyDict [(''number_of_clusters'', PyInt 2),
                   (''clusters'',
                      PyDict [(''Cluster 0'', PyList [PyStr ''Alice'', PyStr ''Carol'']),
                              (''Cluster 1'', PyList [PyStr ''Bob'', PyStr ''Dan''])])]) \<and>
   dict_get ids_result ''clusters'' =
     Inr (PyDict [(''Cluster 0'', PyList [PyFloat (- 1), PyFloat 1])]) \<and>
   json_ok sample_float_of sample_float_repr
     (PyDict [(''Cluster 0'', PyList [PyFloat (- 1), PyFloat 1])]) \<and>
   serialize_clusters_to_json sample_float_repr ids_result =
     Inr (''{\<newline>  "number_of_clusters": 1,\<newline>  "clusters": {\<newline>'' @
          ''    "Cluster 0": [\<newline>      -1.0,\<newline>      1.0\<newline>    ]\<newline>  }\<newline>}'') \<and>
   json_loads sample_float_of
        (''{\<newline>  "number_of_clusters": 1,\<newline>  "clusters": {\<newline>'' @
          ''    "Cluster 0": [\<newline>      -1.0,\<newline>      1.0\<newline>    ]\<newline>  }\<newline>}'') =
     Some (PyDict [(''number_of_clusters'', PyInt 1),
                   (''clusters'', PyDict [(''Cluster 0'', PyList [PyFloat (- 1), PyFloat 1])])])\<close>
proof -
  let ?c = \<open>PyDict [(''Cluster 0'', PyList [PyStr ''Alice'', PyStr ''Carol'']),
                  (''Cluster 1'', PyList [PyStr ''Bob'', PyStr ''Dan''])] :: real pyobj\<close>
  let ?d = \<open>PyDict [(''Cluster 0'', PyList [PyFloat (- 1), PyFloat 1])] :: real pyobj\<close>
  have h1: \<open>dict_get sample_result ''number_of_clusters'' = Inr (PyInt 2)\<close>
    by (simp add: sample_result_def dict_get_def)
  have h2: \<open>dict_get sample_result ''clusters'' = Inr ?c\<close>
    by (simp add: sample_result_def dict_get_def)
  have h3: \<open>json_ok sample_float_of sample_float_repr (PyInt 2)\<close> by simp
  have h4: \<open>json_ok sample_float_of sample_float_repr ?c\<close> by simp
  have g1: \<open>dict_get ids_result ''number_of_clusters'' = Inr (PyInt 1)\<close>
    by (simp add: ids_result_def dict_get_def)
  have g2: \<open>dict_get ids_result ''clusters'' = Inr ?d\<close>
    by (simp add: ids_result_def dict_get_def)
  have g3: \<open>json_ok sample_float_of sample_float_repr (PyInt 1)\<close> by simp
  have g4: \<open>json_ok sample_float_of sample_float_repr ?d\<close>
    by (simp add: float_text_ok_def sample_float_repr_def sample_float_of_def number_char_def
        is_digit_def int_literal_def)
  have s1: \<open>serialize_clusters_to_json sample_float_repr sample_result =
     Inr (''{\<newline>  "number_of_clusters": 2,\<newline>  "clusters": {\<newline>'' @
          ''    "Cluster 0": [\<newline>      "Alice",\<newline>      "Carol"\<newline>    ],\<newline>'' @
          ''    "Cluster 1": [\<newline>      "Bob",\<newline>      "Dan"\<newline>    ]\<newline>  }\<newline>}'')\<close>
    by (simp add: serialize_clusters_to_json_def h1 h2 json_eval)
  have s2: \<open>serialize_clusters_to_json sample_float_repr ids_result =
     Inr (''{\<newline>  "number_of_clusters": 1,\<newline>  "clusters": {\<newline>'' @
          ''    "Cluster 0": [\<newline>      -1.0,\<newline>      1.0\<newline>    ]\<newline>  }\<newline>}'')\<close>
    by (simp add: serialize_clusters_to_json_def g1 g2 json_eval sample_float_repr_def)
  from export_parses_to_two_keys [OF h1 h2 h3 h4] obtain t1 where
    \<open>serialize_clusters_to_json sample_float_repr sample_result = Inr t1\<close>
    \<open>json_loads sample_float_of t1 = Some (PyDict [(''number_of_clusters'', PyInt 2), (''clusters'', ?c)])\<close>
    by (elim exE conjE)
  with s1 have p1: \<open>json_loads sample_float_of
        (''{\<newline>  "number_of_clusters": 2,\<newline>  "clusters": {\<newline>'' @
          ''    "Cluster 0": [\<newline>      "Alice",\<newline>      "Carol"\<newline>    ],\<newline>'' @
          ''    "Cluster 1": [\<newline>      "Bob",\<newline>      "Dan"\<newline>    ]\<newline>  }\<newline>}'') =
     Some (PyDict [(''number_of_clusters'', PyInt 2), (''clusters'', ?c)])\<close>
    by (simp only: sum.inject)
  from export_parses_to_two_keys [OF g1 g2 g3 g4] obtain t2 where
    \<open>serialize_clusters_to_json sample_float_repr ids_result = Inr t2\<close>
    \<open>json_loads sample_float_of t2 = Some (PyDict [(''number_of_clusters'', PyInt 1), (''clusters'', ?d)])\<close>
    by (elim exE conjE)
  with s2 have p2: \<open>json_loads sample_float_of
        (''{\<newline>  "number_of_clusters": 1,\<newline>  "clusters": {\<newline>'' @
          ''    "Cluster 0": [\<newline>      -1.0,\<newline>      1.0\<newline>    ]\<newline>  }\<newline>}'') =
     Some (PyDict [(''number_of_clusters'', PyInt 1), (''clusters'', ?d)])\<close>
    by (simp only: sum.inject)
  show ?thesis
    by (intro conjI) (rule h1 h2 h3 h4 s1 p1 g2 g4 s2 p2)+
qed

text \<open>
  C9, as claimed: the result has a key \<^verbatim>\<open>all_rows\<close>.  The dictionary built by
  \<^verbatim>\<open>run_clustering_pipeline\<close> has the keys \<^verbatim>\<open>number_of_clusters\<close>, \<^verbatim>\<open>clusters\<close> and
  \<^verbatim>\<open>raw_clusters\<close>; looking up \<^verbatim>\<open>all_rows\<close> raises \<^verbatim>\<open>KeyError\<close>.
\<close>

theorem all_rows_key_absent_counterexample:
  "run_clustering_pipeline constant_libs constant_csv 3 = Inr constant_result \<and>
   map fst constant_result = [''number_of_clusters'', ''clusters'', ''raw_clusters''] \<and>
   dict_get constant_result ''all_rows'' = Inl (KeyError ''all_rows'')"
  using constant_run by (simp add: constant_result_def dict_get_def)

text \<open>
  C9, amended.  On a run that succeeds, the result holds, under the key
  \<^verbatim>\<open>raw_clusters\<close>, one record per input row in row order.  The keys of a record are the
  columns of the table and \<^verbatim>\<open>Cluster\<close>; \<^verbatim>\<open>Cluster\<close> holds the integer label of the row,
  and every other column holds the row's value in the frame after encoding and scaling.
\<close>

theorem raw_clusters_records:
  assumes rd: "read_csv L file_bytes = Inr df"
    and wf: "wf_frame df"
    and run: "run_clustering_pipeline L file_bytes k_opt = Inr res"
  shows "\<exists>df1 df2 nc labels records.
      encode_categorical_columns L df = Inr df1 \<and>
      scale_numeric_columns L df1 = Inr (df2, nc) \<and>
      KMeans_fit_predict L k_opt (Some 42) 10 (select_dtypes_number df2) = Inr labels \<and>
      map fst res = [''number_of_clusters'', ''clusters'', ''raw_clusters''] \<and>
      dict_get res ''raw_clusters'' = Inr (PyList records) \<and>
      length records = nrows df \<and>
      (\<forall>i<nrows df. \<exists>r. records ! i = PyDict r \<and>
          set (map fst r) = insert ''Cluster'' (set (columns df)) \<and>
          map_of r ''Cluster'' = Some (PyInt (labels ! i)) \<and>
          (\<forall>c s. c \<noteq> ''Cluster'' \<and> map_of df2 c = Some s \<longrightarrow> map_of r c = Some (tolist s ! i)))"
proof -
  from rd wf run obtain df1 df2 nc labels nm where
    enc: "encode_categorical_columns L df = Inr df1" and
    sc: "scale_numeric_columns L df1 = Inr (df2, nc)" and
    n2: "nrows df2 = nrows df" and c2: "columns df2 = columns df" and
    km: "KMeans_fit_predict L k_opt (Some 42) 10 (select_dtypes_number df2) = Inr labels" and
    len: "length labels = nrows df" and
    res: "res = [(''number_of_clusters'', PyInt k_opt),
            (''clusters'', PyDict (map (\<lambda>c. (cluster_label c,
                 PyList (map ((!) (tolist nm)) (rows_with_label labels c)))) (sort (remdups labels)))),
            (''raw_clusters'', PyList (to_dict_records (assign df2 ''Cluster'' (IntCol labels))))]"
    by (rule successful_run)
  let ?df3 = "assign df2 ''Cluster'' (IntCol labels)"
  let ?records = "to_dict_records ?df3"
  have n3: "nrows ?df3 = nrows df"
    using nrows_assign [of "IntCol labels" df2 "''Cluster''"] len n2 by (simp add: series_len_def)
  have 1: "map fst res = [''number_of_clusters'', ''clusters'', ''raw_clusters'']"
    by (simp add: res)
  have 2: "dict_get res ''raw_clusters'' = Inr (PyList ?records)"
    by (simp add: res dict_get_def)
  have 3: "length ?records = nrows df" using n3 by (simp add: to_dict_records_def)
  have 4: "\<exists>r. ?records ! i = PyDict r \<and>
          set (map fst r) = insert ''Cluster'' (set (columns df)) \<and>
          map_of r ''Cluster'' = Some (PyInt (labels ! i)) \<and>
          (\<forall>c s. c \<noteq> ''Cluster'' \<and> map_of df2 c = Some s \<longrightarrow> map_of r c = Some (tolist s ! i))"
    if i: "i < nrows df" for i
  proof -
    let ?r = "map (\<lambda>(c, s). (c, tolist s ! i)) ?df3"
    have a: "?records ! i = PyDict ?r" using i n3 by (simp add: to_dict_records_nth)
    have "map fst ?r = columns ?df3" by (simp add: columns_def comp_def case_prod_unfold)
    then have b: "set (map fst ?r) = insert ''Cluster'' (set (columns df))"
      using set_columns_assign [of df2 "''Cluster''" "IntCol labels"] c2 by simp
    have c: "map_of ?r ''Cluster'' = Some (PyInt (labels ! i))"
      using i len by (simp add: map_of_record map_of_assign)
    have d: "\<forall>c s. c \<noteq> ''Cluster'' \<and> map_of df2 c = Some s \<longrightarrow> map_of ?r c = Some (tolist s ! i)"
      by (simp add: map_of_record map_of_assign)
    from a b c d show ?thesis by blast
  qed
  then have 5: "\<forall>i<nrows df. \<exists>r. ?records ! i = PyDict r \<and>
          set (map fst r) = insert ''Cluster'' (set (columns df)) \<and>
          map_of r ''Cluster'' = Some (PyInt (labels ! i)) \<and>
          (\<forall>c s. c \<noteq> ''Cluster'' \<and> map_of df2 c = Some s \<longrightarrow> map_of r c = Some (tolist s ! i))"
    by blast
  show ?thesis
    by (intro exI conjI) (rule enc sc km 1 2 3 5)+
qed

theorem raw_clusters_records_witness:
  "read_csv sample_libs sample_csv = Inr sample_frame \<and> wf_frame sample_frame \<and>
   run_clustering_pipeline sample_libs sample_csv 2 = Inr sample_result \<and>
   (\<exists>records. dict_get sample_result ''raw_clusters'' = Inr (PyList records) \<and>
      length records = nrows sample_frame)"
proof -
  from raw_clusters_records [OF sample_read sample_wf sample_run]
  have "\<exists>records. dict_get sample_result ''raw_clusters'' = Inr (PyList records) \<and>
      length records = nrows sample_frame"
    by (elim exE conjE) (intro exI conjI; assumption)
  with sample_read sample_wf sample_run show ?thesis by simp
qed



end
